theory Spec2Isabelle
  imports Main
begin

section \<open>Errors and the DateTime value\<close>

text \<open>
  Every \<open>throw\<close> of the source is a value of \<open>error\<close>; a function that may throw
  returns \<open>error + 'a\<close> with \<open>Inl\<close> for the exception.
\<close>

datatype error =
    InvalidDateTimeError
  | ComparisonError
  | RuleOptionError
  | PipeError
  | ArgumentError
  | Error

definition ebind :: "error + 'a \<Rightarrow> ('a \<Rightarrow> error + 'b) \<Rightarrow> error + 'b" where
  "ebind r f = (case r of Inl e \<Rightarrow> Inl e | Inr v \<Rightarrow> f v)"

text \<open>
  \<open>DateTime\<close> of \<open>@rschedule/core\<close>. The wrapped platform \<open>Date\<close> is its time value,
  the number of milliseconds since the epoch, as a mathematical integer: the platform's
  NaN time value and its clipping at 8.64e15 ms are outside the model, so
  \<open>assertIsValid\<close> always passes. \<open>duration\<close> is a natural number, which is what the
  constructor's check (a non-negative integer) admits. \<open>generators\<close> holds opaque
  identifiers of generator objects.
\<close>

record DateTime =
  date :: int
  timezone :: "string option"
  duration :: nat
  generators :: "nat list"

text \<open>
  The private constructor: \<open>timezone || null\<close> turns the empty string into \<open>null\<close>,
  \<open>duration || 0\<close> and \<open>generators || []\<close> are the identity on the model's types.
\<close>

definition new_DateTime :: "int \<Rightarrow> string option \<Rightarrow> nat \<Rightarrow> nat list \<Rightarrow> DateTime" where
  "new_DateTime t tz dur gens =
     \<lparr>date = t, timezone = (if tz = Some [] then None else tz),
      duration = dur, generators = gens\<rparr>"

definition forkDateTime :: "DateTime \<Rightarrow> int \<Rightarrow> DateTime" where
  "forkDateTime this t = new_DateTime t (timezone this) (duration this) []"

definition valueOf :: "DateTime \<Rightarrow> int" where
  "valueOf d = date d"

text \<open>\<open>assertSameTimeZone(x, y)\<close>: throws unless the two labels are identical.\<close>

definition assertSameTimeZone :: "DateTime \<Rightarrow> DateTime \<Rightarrow> error + bool" where
  "assertSameTimeZone x y =
     (if timezone x \<noteq> timezone y then Inl InvalidDateTimeError else Inr True)"

text \<open>
  The comparison methods. \<open>isEqual\<close> takes an optional argument and tests it for
  absence before anything else; the other four call \<open>assertSameTimeZone\<close> first.
\<close>

definition isEqual :: "DateTime \<Rightarrow> DateTime option \<Rightarrow> error + bool" where
  "isEqual this object =
     (case object of
        None \<Rightarrow> Inr False
      | Some obj \<Rightarrow>
          (case assertSameTimeZone this obj of
             Inl e \<Rightarrow> Inl e
           | Inr _ \<Rightarrow> Inr (valueOf this = valueOf obj)))"

definition isBefore :: "DateTime \<Rightarrow> DateTime \<Rightarrow> error + bool" where
  "isBefore this object =
     (case assertSameTimeZone this object of
        Inl e \<Rightarrow> Inl e
      | Inr _ \<Rightarrow> Inr (valueOf this < valueOf object))"

definition isBeforeOrEqual :: "DateTime \<Rightarrow> DateTime \<Rightarrow> error + bool" where
  "isBeforeOrEqual this object =
     (case assertSameTimeZone this object of
        Inl e \<Rightarrow> Inl e
      | Inr _ \<Rightarrow> Inr (valueOf this \<le> valueOf object))"

definition isAfter :: "DateTime \<Rightarrow> DateTime \<Rightarrow> error + bool" where
  "isAfter this object =
     (case assertSameTimeZone this object of
        Inl e \<Rightarrow> Inl e
      | Inr _ \<Rightarrow> Inr (valueOf this > valueOf object))"

definition isAfterOrEqual :: "DateTime \<Rightarrow> DateTime \<Rightarrow> error + bool" where
  "isAfterOrEqual this object =
     (case assertSameTimeZone this object of
        Inl e \<Rightarrow> Inl e
      | Inr _ \<Rightarrow> Inr (valueOf this \<ge> valueOf object))"

text \<open>
  The \<open>DateTime\<close> of the older \<open>rschedule\<close> package (\<open>lib/date-time.ts\<close>). Its
  constructor does not validate the wrapped date, so the time value may be NaN, which is
  \<open>None\<close> here; the timezone label is a string or \<open>undefined\<close>. The argument of a
  comparison is any object with a \<open>valueOf\<close> and a timezone label, which the same record
  describes. Every comparison of the source language with a NaN operand is false.
\<close>

record LegacyDateTime =
  legacy_value :: "int option"
  legacy_timezone :: "string option"

definition number_eq :: "int option \<Rightarrow> int option \<Rightarrow> bool" where
  "number_eq a b = (case (a, b) of (Some x, Some y) \<Rightarrow> x = y | _ \<Rightarrow> False)"

definition number_lt :: "int option \<Rightarrow> int option \<Rightarrow> bool" where
  "number_lt a b = (case (a, b) of (Some x, Some y) \<Rightarrow> x < y | _ \<Rightarrow> False)"

definition number_le :: "int option \<Rightarrow> int option \<Rightarrow> bool" where
  "number_le a b = (case (a, b) of (Some x, Some y) \<Rightarrow> x \<le> y | _ \<Rightarrow> False)"

text \<open>
  The same test for absence as in the core, then an inline check of the labels that
  throws \<open>ComparisonError\<close>; the other four methods start with the check.
\<close>

definition legacy_isEqual :: "LegacyDateTime \<Rightarrow> LegacyDateTime option \<Rightarrow> error + bool" where
  "legacy_isEqual this object =
     (case object of
        None \<Rightarrow> Inr False
      | Some obj \<Rightarrow>
          (if legacy_timezone obj \<noteq> legacy_timezone this then Inl ComparisonError
           else Inr (number_eq (legacy_value obj) (legacy_value this))))"

definition legacy_isBefore :: "LegacyDateTime \<Rightarrow> LegacyDateTime \<Rightarrow> error + bool" where
  "legacy_isBefore this object =
     (if legacy_timezone object \<noteq> legacy_timezone this then Inl ComparisonError
      else Inr (number_lt (legacy_value this) (legacy_value object)))"

definition legacy_isBeforeOrEqual :: "LegacyDateTime \<Rightarrow> LegacyDateTime \<Rightarrow> error + bool" where
  "legacy_isBeforeOrEqual this object =
     (if legacy_timezone object \<noteq> legacy_timezone this then Inl ComparisonError
      else Inr (number_le (legacy_value this) (legacy_value object)))"

definition legacy_isAfter :: "LegacyDateTime \<Rightarrow> LegacyDateTime \<Rightarrow> error + bool" where
  "legacy_isAfter this object =
     (if legacy_timezone object \<noteq> legacy_timezone this then Inl ComparisonError
      else Inr (number_lt (legacy_value object) (legacy_value this)))"

definition legacy_isAfterOrEqual :: "LegacyDateTime \<Rightarrow> LegacyDateTime \<Rightarrow> error + bool" where
  "legacy_isAfterOrEqual this object =
     (if legacy_timezone object \<noteq> legacy_timezone this then Inl ComparisonError
      else Inr (number_le (legacy_value object) (legacy_value this)))"

text \<open>A label different from a given one, used to exhibit a comparison that throws.\<close>

definition other_label :: "string option \<Rightarrow> string option" where
  "other_label tz = (if tz = None then Some ''UTC'' else None)"

section \<open>The platform Date in UTC\<close>

text \<open>
  The source reads and writes calendar fields through the UTC methods of the platform
  \<open>Date\<close>. They are functions of the time value. A day number (days since
  1970-01-01) is converted to and from a proleptic Gregorian date through 400-year
  eras of 146097 days and years that begin on 1 March, so that the leap day is the
  last day of its year.
\<close>

definition msPerDay :: int where
  "msPerDay = 86400000"

definition DayOf :: "int \<Rightarrow> int" where
  "DayOf t = t div msPerDay"

definition TimeWithinDay :: "int \<Rightarrow> int" where
  "TimeWithinDay t = t mod msPerDay"

text \<open>Day within a 400-year era from the year of the era and the day of that year.\<close>

definition era_day :: "int \<Rightarrow> int \<Rightarrow> int" where
  "era_day yoe doy = yoe * 365 + yoe div 4 - yoe div 100 + doy"

definition era_split :: "int \<Rightarrow> int \<times> int" where
  "era_split doe =
     (let n100 = min (doe div 36524) 3;
          d2 = doe - n100 * 36524;
          n4 = d2 div 1461;
          d3 = d2 mod 1461;
          n1 = min (d3 div 365) 3
      in (n100 * 100 + n4 * 4 + n1, d3 - n1 * 365))"

text \<open>Day of the March-based year from the month index (0 = March) and the day.\<close>

definition year_day :: "int \<Rightarrow> int \<Rightarrow> int" where
  "year_day mp d = (153 * mp + 2) div 5 + d - 1"

definition year_day_split :: "int \<Rightarrow> int \<times> int" where
  "year_day_split doy =
     (let mp = (5 * doy + 2) div 153 in (mp, doy - (153 * mp + 2) div 5 + 1))"

definition days_from_civil :: "int \<Rightarrow> int \<Rightarrow> int \<Rightarrow> int" where
  "days_from_civil y m d =
     (let y' = (if m \<le> 2 then y - 1 else y);
          mp = (if m > 2 then m - 3 else m + 9)
      in (y' div 400) * 146097 + era_day (y' mod 400) (year_day mp d) - 719468)"

definition civil_from_days :: "int \<Rightarrow> int \<times> int \<times> int" where
  "civil_from_days z =
     (let z' = z + 719468;
          era = z' div 146097;
          (yoe, doy) = era_split (z' mod 146097);
          (mp, d) = year_day_split doy;
          m = (if mp < 10 then mp + 3 else mp - 9);
          y' = era * 400 + yoe
      in (if m \<le> 2 then y' + 1 else y', m, d))"

text \<open>The getters: month is 0-based, as on the platform.\<close>

definition getUTCFullYear :: "int \<Rightarrow> int" where
  "getUTCFullYear t = (case civil_from_days (DayOf t) of (y, m, d) \<Rightarrow> y)"

definition getUTCMonth :: "int \<Rightarrow> int" where
  "getUTCMonth t = (case civil_from_days (DayOf t) of (y, m, d) \<Rightarrow> m - 1)"

definition getUTCDate :: "int \<Rightarrow> int" where
  "getUTCDate t = (case civil_from_days (DayOf t) of (y, m, d) \<Rightarrow> d)"


definition getUTCHours :: "int \<Rightarrow> int" where
  "getUTCHours t = TimeWithinDay t div 3600000"

definition getUTCMinutes :: "int \<Rightarrow> int" where
  "getUTCMinutes t = (TimeWithinDay t div 60000) mod 60"

definition getUTCSeconds :: "int \<Rightarrow> int" where
  "getUTCSeconds t = (TimeWithinDay t div 1000) mod 60"

definition getUTCMilliseconds :: "int \<Rightarrow> int" where
  "getUTCMilliseconds t = TimeWithinDay t mod 1000"

text \<open>
  \<open>MakeDay\<close>, \<open>MakeTime\<close> and \<open>MakeDate\<close> of the language standard: a month outside
  0..11 carries into the year, a day outside the month carries into the next or the
  previous months, since the day number is linear in the day argument.
\<close>

definition MakeDay :: "int \<Rightarrow> int \<Rightarrow> int \<Rightarrow> int" where
  "MakeDay year month dt = days_from_civil (year + month div 12) (month mod 12 + 1) 1 + dt - 1"

definition MakeTime :: "int \<Rightarrow> int \<Rightarrow> int \<Rightarrow> int \<Rightarrow> int" where
  "MakeTime h m s ms = h * 3600000 + m * 60000 + s * 1000 + ms"

definition MakeDate :: "int \<Rightarrow> int \<Rightarrow> int" where
  "MakeDate day time = day * msPerDay + time"











text \<open>\<open>Date.UTC\<close>: a year from 0 to 99 stands for 1900 + year.\<close>

definition Date_UTC :: "int \<Rightarrow> int \<Rightarrow> int \<Rightarrow> int \<Rightarrow> int \<Rightarrow> int \<Rightarrow> int \<Rightarrow> int" where
  "Date_UTC y m dt h mi s ms =
     MakeDate (MakeDay (if 0 \<le> y \<and> y \<le> 99 then 1900 + y else y) m dt) (MakeTime h mi s ms)"

section \<open>Calendar utilities of the core package\<close>
















section \<open>DateTime: fields and arithmetic\<close>

datatype TimeUnit = Year | Month | Day | Hour | Minute | Second | Millisecond


datatype Weekday = SU | MO | TU | WE | TH | FR | SA


text \<open>
  \<open>get\<close> on the numeric units (the default branch of the source's \<open>switch\<close> cannot
  be reached with a unit of this type); the weekday getter is separate because it
  returns a name.
\<close>

fun get :: "DateTime \<Rightarrow> TimeUnit \<Rightarrow> int" where
  "get this Year = getUTCFullYear (date this)"
| "get this Month = getUTCMonth (date this) + 1"
| "get this Day = getUTCDate (date this)"
| "get this Hour = getUTCHours (date this)"
| "get this Minute = getUTCMinutes (date this)"
| "get this Second = getUTCSeconds (date this)"
| "get this Millisecond = getUTCMilliseconds (date this)"


text \<open>
  \<open>set\<close> on a time unit. For the month, \<open>day > length\<close> is false when the table has
  no entry for the month; when it is true the date goes to the first day of the month
  after the target (\<open>setUTCMonth(value)\<close> with the 1-based value) and one day back.
\<close>

definition set_duration :: "DateTime \<Rightarrow> int \<Rightarrow> error + DateTime" where
  "set_duration this v =
     (if v < 0 then Inl InvalidDateTimeError
      else Inr (new_DateTime (date this) (timezone this) (nat v) []))"



definition add_generator :: "DateTime \<Rightarrow> nat \<Rightarrow> DateTime" where
  "add_generator this g =
     new_DateTime (date this) (timezone this) (duration this) (g # generators this)"









text \<open>\<open>DateTime.fromJSON\<close> builds the time value with \<open>Date.UTC\<close>.\<close>

record JSON =
  json_timezone :: "string option"
  json_duration :: "nat option"
  json_year :: int
  json_month :: int
  json_day :: int
  json_hour :: int
  json_minute :: int
  json_second :: int
  json_millisecond :: int

definition fromJSON :: "JSON \<Rightarrow> DateTime" where
  "fromJSON json =
     new_DateTime
       (Date_UTC (json_year json) (json_month json - 1) (json_day json) (json_hour json)
          (json_minute json) (json_second json) (json_millisecond json))
       (json_timezone json)
       (case json_duration json of None \<Rightarrow> 0 | Some n \<Rightarrow> n)
       []"

section \<open>The date-set generator\<close>

text \<open>
  \<open>dateTimeSortComparer\<close>: by time value, then by duration when both durations are
  non-zero.
\<close>

definition dateTimeSortComparer :: "DateTime \<Rightarrow> DateTime \<Rightarrow> error + int" where
  "dateTimeSortComparer a b =
     ebind (isAfter a b) (\<lambda>after.
       if after then Inr 1
       else ebind (isBefore a b) (\<lambda>before.
         if before then Inr (- 1)
         else if duration a \<noteq> 0 \<and> duration b \<noteq> 0 then
           (if duration a > duration b then Inr 1
            else if duration a < duration b then Inr (- 1)
            else Inr 0)
         else Inr 0))"

text \<open>
  The platform's \<open>Array.prototype.sort\<close> is stable; it is modelled as the stable
  insertion sort, which stops at the first exception of the comparison function.
\<close>

fun insert_sorted :: "('a \<Rightarrow> 'a \<Rightarrow> error + int) \<Rightarrow> 'a \<Rightarrow> 'a list \<Rightarrow> error + 'a list" where
  "insert_sorted cmp x [] = Inr [x]"
| "insert_sorted cmp x (y # ys) =
     ebind (cmp x y) (\<lambda>c.
       if c \<le> 0 then Inr (x # y # ys)
       else ebind (insert_sorted cmp x ys) (\<lambda>r. Inr (y # r)))"

fun sort_array :: "('a \<Rightarrow> 'a \<Rightarrow> error + int) \<Rightarrow> 'a list \<Rightarrow> error + 'a list" where
  "sort_array cmp [] = Inr []"
| "sort_array cmp (x # xs) = ebind (sort_array cmp xs) (insert_sorted cmp x)"

text \<open>\<open>Array.prototype.filter\<close> with a predicate that may throw.\<close>

fun filter_array :: "('a \<Rightarrow> error + bool) \<Rightarrow> 'a list \<Rightarrow> error + 'a list" where
  "filter_array p [] = Inr []"
| "filter_array p (x # xs) =
     ebind (p x) (\<lambda>b. ebind (filter_array p xs) (\<lambda>r. Inr (if b then x # r else r)))"

text \<open>\<open>Array.prototype.shift\<close>: the first element, if any, and the rest.\<close>

definition shift :: "'a list \<Rightarrow> 'a option \<times> 'a list" where
  "shift xs = (case xs of [] \<Rightarrow> (None, []) | x # r \<Rightarrow> (Some x, r))"

record RunArgs =
  args_start :: "DateTime option"
  args_end :: "DateTime option"
  args_take :: "nat option"
  args_reverse :: bool

text \<open>
  The first half of \<open>Dates._run\<close>: sort, filter by the bounds, reverse, cut to
  \<open>take\<close> (a \<open>take\<close> of 0 is falsy and cuts nothing).
\<close>

definition Dates_prepare :: "DateTime list \<Rightarrow> RunArgs \<Rightarrow> error + DateTime list" where
  "Dates_prepare datetimes args =
     ebind (sort_array dateTimeSortComparer datetimes) (\<lambda>dates0.
     ebind (case args_start args of
              None \<Rightarrow> Inr dates0
            | Some s \<Rightarrow> filter_array (\<lambda>d. isAfterOrEqual d s) dates0) (\<lambda>dates1.
     ebind (case args_end args of
              None \<Rightarrow> Inr dates1
            | Some e \<Rightarrow> filter_array (\<lambda>d. isBeforeOrEqual d e) dates1) (\<lambda>dates2.
     let dates3 = (if args_reverse args then rev dates2 else dates2);
         dates4 = (case args_take args of
                     None \<Rightarrow> dates3
                   | Some n \<Rightarrow> if n = 0 then dates3 else take n dates3)
     in Inr dates4)))"

text \<open>
  The generator loop. A traversal is the list of values yielded together with the
  exception that ended it, if any. The consumer's answer to each \<open>yield\<close> is an optional
  \<open>skipToDate\<close>; \<open>ins\<close> lists the answers to the first yields, and after them the consumer
  goes on pulling without an argument until the generator is done. \<open>nro\<close> is
  \<open>normalizeRunOutput\<close> of the generator base class, which is not part of the sources
  at hand, and \<open>self\<close> identifies the generator.
\<close>

function Dates_loop ::
  "(DateTime \<Rightarrow> DateTime) \<Rightarrow> nat \<Rightarrow> DateTime list \<Rightarrow> bool \<Rightarrow> DateTime list \<Rightarrow>
   DateTime option \<Rightarrow> DateTime option \<Rightarrow> DateTime option list \<Rightarrow> DateTime list \<times> error option"
where
  "Dates_loop nro self dates rv dateCache dt yieldArgs ins =
     (case dt of
        None \<Rightarrow> ([], None)
      | Some d \<Rightarrow>
          (case (case yieldArgs of
                   None \<Rightarrow> Inr False
                 | Some skipToDate \<Rightarrow>
                     if rv then isBefore skipToDate d else isAfter skipToDate d) of
             Inl e \<Rightarrow> ([], Some e)
           | Inr skip \<Rightarrow>
               if skip then
                 Dates_loop nro self dates rv (snd (shift dateCache)) (fst (shift dateCache))
                   yieldArgs ins
               else
                 (let ya = (case ins of [] \<Rightarrow> None | i # r \<Rightarrow> i);
                      cache2 = (if ya \<noteq> None then dates else dateCache);
                      rest = Dates_loop nro self dates rv (snd (shift cache2))
                               (fst (shift cache2)) ya (tl ins)
                  in (nro (add_generator d self) # fst rest, snd rest))))"
  by pat_completeness auto
termination
  by (relation "measures
        [\<lambda>(nro, self, dates, rv, dateCache, dt, yieldArgs, ins). length ins,
         \<lambda>(nro, self, dates, rv, dateCache, dt, yieldArgs, ins).
            (case dt of None \<Rightarrow> 0 | Some _ \<Rightarrow> Suc (length dateCache))]")
     (auto simp: shift_def split: list.splits)

definition Dates_run ::
  "(DateTime \<Rightarrow> DateTime) \<Rightarrow> nat \<Rightarrow> DateTime list \<Rightarrow> RunArgs \<Rightarrow> DateTime option list \<Rightarrow>
   DateTime list \<times> error option"
where
  "Dates_run nro self datetimes args ins =
     (case Dates_prepare datetimes args of
        Inl e \<Rightarrow> ([], Some e)
      | Inr dates \<Rightarrow>
          Dates_loop nro self dates (args_reverse args) (snd (shift dates)) (fst (shift dates))
            None ins)"

text \<open>
  A traversal with the bounds taken away, and the test that a value lies within the bounds
  of a traversal (\<open>start \<le> d \<le> end\<close> on the time values, an absent bound not
  constraining). \<open>emitted\<close> is what the loop does to a date before yielding it.
\<close>

definition unbounded :: "RunArgs \<Rightarrow> RunArgs" where
  "unbounded args = args\<lparr>args_start := None, args_end := None\<rparr>"

definition in_window :: "RunArgs \<Rightarrow> DateTime \<Rightarrow> bool" where
  "in_window args d =
     ((case args_start args of None \<Rightarrow> True | Some s \<Rightarrow> valueOf s \<le> valueOf d) \<and>
      (case args_end args of None \<Rightarrow> True | Some e \<Rightarrow> valueOf d \<le> valueOf e))"

definition emitted :: "(DateTime \<Rightarrow> DateTime) \<Rightarrow> nat \<Rightarrow> DateTime \<Rightarrow> DateTime" where
  "emitted nro self d = nro (add_generator d self)"

text \<open>A date without timezone label or duration, for examples.\<close>

definition instant :: "int \<Rightarrow> DateTime" where
  "instant t = \<lparr>date = t, timezone = None, duration = 0, generators = []\<rparr>"

text \<open>
  Order in the direction of a traversal, on time values: ascending, or descending in
  reverse. A traversal is monotonic when any two of its values, in the order of emission,
  are in that order, and strictly monotonic when any two consecutive values are strictly
  in that order.
\<close>

definition in_direction :: "bool \<Rightarrow> DateTime \<Rightarrow> DateTime \<Rightarrow> bool" where
  "in_direction rv a b = (if rv then valueOf b \<le> valueOf a else valueOf a \<le> valueOf b)"




text \<open>
  The consumer skips ahead when every skip target it answers with is at or beyond, in the
  direction of the traversal, the value it has just received. \<open>ins\<close> are the answers to
  the values \<open>out\<close>, in order.
\<close>

fun skips_ahead :: "bool \<Rightarrow> DateTime list \<Rightarrow> DateTime option list \<Rightarrow> bool" where
  "skips_ahead rv (v # out) (i # ins) =
     ((case i of None \<Rightarrow> True | Some skipToDate \<Rightarrow> in_direction rv v skipToDate) \<and>
      skips_ahead rv out ins)"
| "skips_ahead rv out ins = True"

text \<open>The dates the loop has before it: the current one and the cache, if there is one.\<close>

definition pending :: "DateTime option \<Rightarrow> DateTime list \<Rightarrow> DateTime list" where
  "pending dt dateCache = (case dt of None \<Rightarrow> [] | Some d \<Rightarrow> d # dateCache)"

definition plain_run :: RunArgs where
  "plain_run = \<lparr>args_start = None, args_end = None, args_take = None, args_reverse = False\<rparr>"

definition example_window :: RunArgs where
  "example_window = \<lparr>args_start = Some (instant 15), args_end = Some (instant 30),
                      args_take = None, args_reverse = False\<rparr>"

section \<open>The unique operator\<close>

text \<open>
  \<open>Operator.normalizeRunOutput\<close>: a value in another timezone is converted through the
  date adapter, which is outside the core; \<open>convert\<close> stands for that conversion.
\<close>

definition normalizeRunOutput ::
  "string option \<Rightarrow> (DateTime \<Rightarrow> DateTime) \<Rightarrow> DateTime \<Rightarrow> DateTime" where
  "normalizeRunOutput tz convert d = (if timezone d \<noteq> tz then convert d else d)"

text \<open>
  \<open>IterableWrapper\<close>, \<open>streamPastEnd\<close> and \<open>streamPastSkipToDate\<close> are imported from a
  module that is not in the sources. The operator uses the wrapper as a cursor on the
  traversal of its upstream: \<open>done\<close>, \<open>value\<close> and \<open>picked()\<close>. A stream is therefore
  the values the upstream still has to give, the pending one first, with the exception
  that ends the upstream, if any: \<open>done\<close> is the empty list, \<open>value\<close> its head and
  \<open>picked()\<close> moves to its tail. What the two tests ask of the pending value is a
  parameter (\<open>valuePastEnd\<close>, \<open>valuePastSkipToDate\<close>), with the exception it may throw;
  on an exhausted stream, where there is no pending value to test and the loops of the
  operator have no other way out, they hold.
\<close>

type_synonym stream = "DateTime list \<times> error option"

definition streamPastEnd ::
  "(DateTime \<Rightarrow> RunArgs \<Rightarrow> error + bool) \<Rightarrow> stream \<Rightarrow> RunArgs \<Rightarrow> error + bool" where
  "streamPastEnd valuePastEnd stream args =
     (case fst stream of [] \<Rightarrow> Inr True | v # _ \<Rightarrow> valuePastEnd v args)"

definition streamPastSkipToDate ::
  "(DateTime \<Rightarrow> DateTime \<Rightarrow> RunArgs \<Rightarrow> error + bool) \<Rightarrow> stream \<Rightarrow> DateTime \<Rightarrow> RunArgs \<Rightarrow>
   error + bool" where
  "streamPastSkipToDate valuePastSkipToDate stream skipToDate args =
     (case fst stream of [] \<Rightarrow> Inr True | v # _ \<Rightarrow> valuePastSkipToDate v skipToDate args)"

text \<open>\<open>picked()\<close> pulls the next upstream value; the pull throws when the upstream does.\<close>

definition picked :: "stream \<Rightarrow> error + stream" where
  "picked stream =
     (case fst stream of
        [] \<Rightarrow> Inr stream
      | v # vs \<Rightarrow> (case (vs, snd stream) of ([], Some e) \<Rightarrow> Inl e | _ \<Rightarrow> Inr (vs, snd stream)))"

text \<open>The two inner \<open>while\<close> loops of \<open>UniqueOperator._run\<close>.\<close>

fun skip_loop ::
  "(DateTime \<Rightarrow> RunArgs \<Rightarrow> error + bool) \<Rightarrow> (DateTime \<Rightarrow> DateTime \<Rightarrow> RunArgs \<Rightarrow> error + bool) \<Rightarrow>
   RunArgs \<Rightarrow> DateTime \<Rightarrow> error option \<Rightarrow> DateTime list \<Rightarrow> error + stream" where
  "skip_loop pe ps args skipToDate err [] = Inr ([], err)"
| "skip_loop pe ps args skipToDate err (v # vs) =
     ebind (streamPastEnd pe (v # vs, err) args) (\<lambda>pastEnd.
       if pastEnd then Inr (v # vs, err)
       else ebind (streamPastSkipToDate ps (v # vs, err) skipToDate args) (\<lambda>pastSkip.
         if pastSkip then Inr (v # vs, err)
         else (case picked (v # vs, err) of
                 Inl e \<Rightarrow> Inl e
               | Inr _ \<Rightarrow> skip_loop pe ps args skipToDate err vs)))"

fun equal_loop ::
  "(DateTime \<Rightarrow> RunArgs \<Rightarrow> error + bool) \<Rightarrow> RunArgs \<Rightarrow> DateTime \<Rightarrow> error option \<Rightarrow>
   DateTime list \<Rightarrow> error + stream" where
  "equal_loop pe args lastValue err [] = Inr ([], err)"
| "equal_loop pe args lastValue err (v # vs) =
     ebind (streamPastEnd pe (v # vs, err) args) (\<lambda>pastEnd.
       if pastEnd then Inr (v # vs, err)
       else ebind (isEqual v (Some lastValue)) (\<lambda>eq.
         if \<not> eq then Inr (v # vs, err)
         else (case picked (v # vs, err) of
                 Inl e \<Rightarrow> Inl e
               | Inr _ \<Rightarrow> equal_loop pe args lastValue err vs)))"

lemma ebind_Inr: "ebind r f = Inr y \<longleftrightarrow> (\<exists>v. r = Inr v \<and> f v = Inr y)"
  by (cases r) (simp_all add: ebind_def)

lemma picked_Cons: "picked (v # vs, err) = Inr s \<Longrightarrow> s = (vs, err)"
  by (simp add: picked_def split: list.splits option.splits)

lemma skip_loop_suffix:
  "skip_loop pe ps args x err vs = Inr s \<Longrightarrow> snd s = err \<and> (\<exists>k. fst s = drop k vs)"
proof (induction vs)
  case Nil
  then show ?case by auto
next
  case (Cons v vs)
  show ?case
  proof (cases "skip_loop pe ps args x err (v # vs) = Inr (v # vs, err)")
    case True
    with Cons.prems have "s = (v # vs, err)" by simp
    then have "snd s = err" "fst s = drop 0 (v # vs)" by simp_all
    then show ?thesis by blast
  next
    case False
    with Cons.prems have "skip_loop pe ps args x err vs = Inr s"
      by (simp add: ebind_def split: sum.splits if_splits)
    from Cons.IH [OF this] obtain k where "snd s = err" "fst s = drop k vs" by blast
    then have "snd s = err" "fst s = drop (Suc k) (v # vs)" by simp_all
    then show ?thesis by blast
  qed
qed

lemma equal_loop_suffix:
  "equal_loop pe args x err vs = Inr s \<Longrightarrow> snd s = err \<and> (\<exists>k. fst s = drop k vs)"
proof (induction vs)
  case Nil
  then show ?case by auto
next
  case (Cons v vs)
  show ?case
  proof (cases "equal_loop pe args x err (v # vs) = Inr (v # vs, err)")
    case True
    with Cons.prems have "s = (v # vs, err)" by simp
    then have "snd s = err" "fst s = drop 0 (v # vs)" by simp_all
    then show ?thesis by blast
  next
    case False
    with Cons.prems have "equal_loop pe args x err vs = Inr s"
      by (simp add: ebind_def split: sum.splits if_splits)
    from Cons.IH [OF this] obtain k where "snd s = err" "fst s = drop k vs" by blast
    then have "snd s = err" "fst s = drop (Suc k) (v # vs)" by simp_all
    then show ?thesis by blast
  qed
qed

text \<open>
  The outer loop: yield the pending value, pull, skip to the consumer's target if one
  was given, then drop the values equal to the one just yielded.
\<close>

definition after_yield ::
  "(DateTime \<Rightarrow> RunArgs \<Rightarrow> error + bool) \<Rightarrow> (DateTime \<Rightarrow> DateTime \<Rightarrow> RunArgs \<Rightarrow> error + bool) \<Rightarrow>
   RunArgs \<Rightarrow> DateTime \<Rightarrow> DateTime option \<Rightarrow> stream \<Rightarrow> error + stream" where
  "after_yield pe ps args lastValue yieldArgs stream =
     ebind (picked stream) (\<lambda>s1.
     ebind (case yieldArgs of
              None \<Rightarrow> Inr s1
            | Some skipToDate \<Rightarrow> skip_loop pe ps args skipToDate (snd s1) (fst s1)) (\<lambda>s2.
     equal_loop pe args lastValue (snd s2) (fst s2)))"

lemma after_yield_suffix:
  assumes "after_yield pe ps args x ya (v # vs, err) = Inr s"
  shows "snd s = err \<and> (\<exists>k. fst s = drop k vs)"
proof -
  from assms obtain s1 s2 where
    p: "picked (v # vs, err) = Inr s1"
    and sk: "(case ya of None \<Rightarrow> Inr s1 | Some t \<Rightarrow> skip_loop pe ps args t (snd s1) (fst s1))
               = Inr s2"
    and eq: "equal_loop pe args x (snd s2) (fst s2) = Inr s"
    unfolding after_yield_def ebind_Inr by blast
  from picked_Cons [OF p] have s1: "fst s1 = vs" "snd s1 = err" by simp_all
  have "snd s2 = err \<and> (\<exists>j. fst s2 = drop j vs)"
  proof (cases ya)
    case None
    with sk s1 have "snd s2 = err" "fst s2 = drop 0 vs" by auto
    then show ?thesis by blast
  next
    case (Some t)
    with sk have "skip_loop pe ps args t (snd s1) (fst s1) = Inr s2" by simp
    from skip_loop_suffix [OF this] show ?thesis unfolding s1 .
  qed
  then obtain j where s2: "snd s2 = err" "fst s2 = drop j vs" by blast
  from equal_loop_suffix [OF eq] obtain k where "snd s = err" "fst s = drop k (drop j vs)"
    unfolding s2 by blast
  then have "snd s = err" "fst s = drop (k + j) vs" by simp_all
  then show ?thesis by blast
qed

lemma after_yield_length:
  "after_yield pe ps args x ya (v # vs, err) = Inr s \<Longrightarrow> length (fst s) \<le> length vs"
  by (drule after_yield_suffix) auto

function unique_loop ::
  "(DateTime \<Rightarrow> RunArgs \<Rightarrow> error + bool) \<Rightarrow> (DateTime \<Rightarrow> DateTime \<Rightarrow> RunArgs \<Rightarrow> error + bool) \<Rightarrow>
   (DateTime \<Rightarrow> DateTime) \<Rightarrow> RunArgs \<Rightarrow> error option \<Rightarrow> DateTime list \<Rightarrow> DateTime option list \<Rightarrow>
   DateTime list \<times> error option"
where
  "unique_loop pe ps nro args err [] ins = ([], None)"
| "unique_loop pe ps nro args err (v # vs) ins =
     (case after_yield pe ps args v (case ins of [] \<Rightarrow> None | i # r \<Rightarrow> i) (v # vs, err) of
        Inl e \<Rightarrow> ([nro v], Some e)
      | Inr s \<Rightarrow>
          (let rest = unique_loop pe ps nro args (snd s) (fst s) (tl ins)
           in (nro v # fst rest, snd rest)))"
  by pat_completeness auto
termination
proof (relation "measure (\<lambda>(pe, ps, nro, args, err, vs, ins). length vs)", goal_cases)
  case 1
  show ?case by simp
next
  case (2 pe ps nro args err v vs ins s)
  from after_yield_length [OF 2] show ?case by simp
qed

text \<open>
  \<open>UniqueOperator._run\<close>. \<open>base\<close> is the traversal of the base stream for the same
  arguments, absent when the operator has no base; building the wrapper pulls once, so
  an upstream that throws before its first value makes the operator throw.
\<close>

definition UniqueOperator_run ::
  "(DateTime \<Rightarrow> RunArgs \<Rightarrow> error + bool) \<Rightarrow> (DateTime \<Rightarrow> DateTime \<Rightarrow> RunArgs \<Rightarrow> error + bool) \<Rightarrow>
   string option \<Rightarrow> (DateTime \<Rightarrow> DateTime) \<Rightarrow> RunArgs \<Rightarrow> stream option \<Rightarrow>
   DateTime option list \<Rightarrow> DateTime list \<times> error option"
where
  "UniqueOperator_run pe ps tz convert args base ins =
     (case base of
        None \<Rightarrow> ([], None)
      | Some stream \<Rightarrow>
          (case stream of
             ([], Some e) \<Rightarrow> ([], Some e)
           | (vs, err) \<Rightarrow> unique_loop pe ps (normalizeRunOutput tz convert) args err vs ins))"

text \<open>
  The two dates of the scenario, and tests of the pending value for a traversal without
  bounds: no value is past the end, and a value is past a skip target when it is not
  before it.
\<close>

definition date_2019 :: DateTime where
  "date_2019 = fromJSON \<lparr>json_timezone = None, json_duration = None, json_year = 2019,
     json_month = 1, json_day = 1, json_hour = 1, json_minute = 1, json_second = 1,
     json_millisecond = 1\<rparr>"

definition date_2020 :: DateTime where
  "date_2020 = fromJSON \<lparr>json_timezone = None, json_duration = None, json_year = 2020,
     json_month = 3, json_day = 3, json_hour = 3, json_minute = 3, json_second = 3,
     json_millisecond = 3\<rparr>"

definition never_past_end :: "DateTime \<Rightarrow> RunArgs \<Rightarrow> error + bool" where
  "never_past_end v args = Inr False"

definition at_or_after :: "DateTime \<Rightarrow> DateTime \<Rightarrow> RunArgs \<Rightarrow> error + bool" where
  "at_or_after v skipToDate args = isAfterOrEqual v skipToDate"

section \<open>The final pipe of the rule pipeline\<close>

text \<open>
  \<open>ResultPipe\<close> of the older \<open>rschedule\<close> package. Its dates are date adapters of a
  type \<open>T\<close>, here \<open>'d\<close>; the pipe uses their \<open>isAfter\<close>, \<open>isAfterOrEqual\<close> and
  \<open>clone\<close>, which are parameters (with the exception a comparison may throw). Its own
  state is the counter of invalid iterations and the date of the previous valid iteration;
  \<open>controller.invalid\<close> and \<open>end\<close> come from the pipe base class and the controller,
  which are not in the sources, and are fields here. The arguments of a run carry the date
  and the \<open>invalidDate\<close> flag; whatever else they carry is kept by the record extension.
\<close>

record 'd DateAdapter =
  adapter_isAfter :: "'d \<Rightarrow> 'd \<Rightarrow> error + bool"
  adapter_isAfterOrEqual :: "'d \<Rightarrow> 'd \<Rightarrow> error + bool"
  adapter_clone :: "'d \<Rightarrow> 'd"

record 'd ResultPipe =
  invalidIterationCount :: nat
  previousIterationDate :: "'d option"
  controller_invalid :: bool
  pipe_end :: "'d option"

record 'd IPipeRunFn =
  run_date :: 'd
  run_invalidDate :: bool

text \<open>
  \<open>this.focusedPipe.run(args)\<close> sends the date through the constraint stages, which
  end by calling the final pipe again. The stages are a parameter: \<open>focusedPipe s args\<close>
  is the exception they throw or the arguments they hand to the final pipe, and their
  new state. The final pipe is then a recursive function; it is total because every
  recursive call follows an increment of the counter, which is bounded.
\<close>

function ResultPipe_run ::
  "'d DateAdapter \<Rightarrow>
   ('s \<Rightarrow> ('d, 'x) IPipeRunFn_scheme \<Rightarrow> (error + ('d, 'x) IPipeRunFn_scheme) \<times> 's) \<Rightarrow>
   'd ResultPipe \<Rightarrow> 's \<Rightarrow> ('d, 'x) IPipeRunFn_scheme \<Rightarrow>
   (error + 'd option) \<times> 'd ResultPipe \<times> 's"
where
  "ResultPipe_run T focusedPipe this s args =
     (if controller_invalid this then (Inl Error, this, s)
      else
        (case (case pipe_end this of
                 None \<Rightarrow> Inr False
               | Some e \<Rightarrow> adapter_isAfter T (run_date args) e) of
           Inl err \<Rightarrow> (Inl err, this, s)
         | Inr pastEnd \<Rightarrow>
             if pastEnd then (Inr None, this, s)
             else if run_invalidDate args then
               (let this1 = this\<lparr>invalidIterationCount := invalidIterationCount this + 1\<rparr>
                in if invalidIterationCount this1 > 50 then (Inl PipeError, this1, s)
                   else (case focusedPipe s (args\<lparr>run_invalidDate := False\<rparr>) of
                           (Inl err, s') \<Rightarrow> (Inl err, this1, s')
                         | (Inr args', s') \<Rightarrow> ResultPipe_run T focusedPipe this1 s' args'))
             else
               (case (case previousIterationDate this of
                        None \<Rightarrow> Inr False
                      | Some p \<Rightarrow> adapter_isAfterOrEqual T p (run_date args)) of
                  Inl err \<Rightarrow> (Inl err, this, s)
                | Inr notAfter \<Rightarrow>
                    if notAfter then (Inr None, this, s)
                    else (Inr (Some (run_date args)),
                          this\<lparr>previousIterationDate := Some (adapter_clone T (run_date args)),
                               invalidIterationCount := 0\<rparr>,
                          s))))"
  by pat_completeness auto
termination
  by (relation "measure (\<lambda>(T, focusedPipe, this, s, args). 51 - invalidIterationCount this)") auto

text \<open>
  The two tests of the final pipe, as the source evaluates them: \<open>this.end &&
  args.date.isAfter(this.end)\<close> and \<open>this.previousIterationDate &&
  this.previousIterationDate.isAfterOrEqual(args.date)\<close>.
\<close>

definition past_end ::
  "'d DateAdapter \<Rightarrow> 'd ResultPipe \<Rightarrow> ('d, 'x) IPipeRunFn_scheme \<Rightarrow> error + bool" where
  "past_end T this args =
     (case pipe_end this of
        None \<Rightarrow> Inr False
      | Some e \<Rightarrow> adapter_isAfter T (run_date args) e)"

definition not_after_previous ::
  "'d DateAdapter \<Rightarrow> 'd ResultPipe \<Rightarrow> ('d, 'x) IPipeRunFn_scheme \<Rightarrow> error + bool" where
  "not_after_previous T this args =
     (case previousIterationDate this of
        None \<Rightarrow> Inr False
      | Some p \<Rightarrow> adapter_isAfterOrEqual T p (run_date args))"

text \<open>
  The arguments that reach the final pipe on its \<open>k\<close>-th consecutive re-run: each re-run
  sends the arguments, with the \<open>invalidDate\<close> flag cleared, through the stages once more.
\<close>

fun rerun ::
  "('s \<Rightarrow> ('d, 'x) IPipeRunFn_scheme \<Rightarrow> (error + ('d, 'x) IPipeRunFn_scheme) \<times> 's) \<Rightarrow>
   nat \<Rightarrow> 's \<Rightarrow> ('d, 'x) IPipeRunFn_scheme \<Rightarrow> (error + ('d, 'x) IPipeRunFn_scheme) \<times> 's"
where
  "rerun focusedPipe 0 s args = (Inr args, s)"
| "rerun focusedPipe (Suc k) s args =
     (case focusedPipe s (args\<lparr>run_invalidDate := False\<rparr>) of
        (Inl err, s') \<Rightarrow> (Inl err, s')
      | (Inr args', s') \<Rightarrow> rerun focusedPipe k s' args')"

text \<open>
  The comparisons of \<open>StandardDateAdapter\<close>, on the time value of a valid adapter: they
  compare the values and do not throw. The clone has the same value.
\<close>

definition StandardDateAdapter :: "int DateAdapter" where
  "StandardDateAdapter =
     \<lparr>adapter_isAfter = (\<lambda>this object. Inr (this > object)),
      adapter_isAfterOrEqual = (\<lambda>this object. Inr (this \<ge> object)),
      adapter_clone = (\<lambda>this. this)\<rparr>"

text \<open>
  Stages that can never be satisfied: whatever the date, they hand it to the final pipe as
  invalid. A pipe that has not run yet, with or without an end.
\<close>

definition never_valid :: "unit \<Rightarrow> int IPipeRunFn \<Rightarrow> (error + int IPipeRunFn) \<times> unit" where
  "never_valid s args = (Inr (args\<lparr>run_invalidDate := True\<rparr>), s)"

definition fresh_pipe :: "int option \<Rightarrow> int ResultPipe" where
  "fresh_pipe e = \<lparr>invalidIterationCount = 0, previousIterationDate = None,
                    controller_invalid = False, pipe_end = e\<rparr>"


section \<open>Normalisation of the day-of-month option\<close>

datatype Frequency = YEARLY | MONTHLY | WEEKLY | DAILY | HOURLY | MINUTELY | SECONDLY

record IRuleOptions =
  opt_frequency :: Frequency
  opt_byDayOfMonth :: "int list option"
  opt_byDayOfWeek :: "(Weekday \<times> int option) list option"

record INormRuleOptions =
  norm_start :: DateTime
  norm_byDayOfMonth :: "int list option"

text \<open>
  \<open>ByDayOfMonthRuleModule.normalizeOptions\<close>. The option is typed as an array, so the
  \<open>Array.isArray\<close> test passes. An array is truthy even when empty, so the second
  branch asks only whether \<open>byDayOfWeek\<close> is absent.
\<close>

definition normalizeOptions :: "IRuleOptions \<Rightarrow> INormRuleOptions \<Rightarrow> error + INormRuleOptions" where
  "normalizeOptions options norm =
     (case opt_byDayOfMonth options of
        Some byDayOfMonth \<Rightarrow>
          if opt_frequency options = WEEKLY then Inl RuleOptionError
          else if list_ex (\<lambda>num. num = 0 \<or> num < - 31 \<or> num > 31) byDayOfMonth
            then Inl RuleOptionError
          else Inr (norm\<lparr>norm_byDayOfMonth := Some byDayOfMonth\<rparr>)
      | None \<Rightarrow>
          if \<not> (opt_byDayOfMonth options \<noteq> None \<or> opt_byDayOfWeek options \<noteq> None)
             \<and> List.member [YEARLY, MONTHLY] (opt_frequency options)
          then Inr (norm\<lparr>norm_byDayOfMonth := Some [get (norm_start norm) Day]\<rparr>)
          else Inr norm)"

section \<open>The month-of-year rule\<close>




section \<open>Configuration objects\<close>






















section \<open>Auxiliary notions for the calendar proofs\<close>







section \<open>The calendar conversions are inverse to each other\<close>

























section \<open>Facts about the platform Date\<close>
















section \<open>Setting fields\<close>


lemma forkDateTime_forkDateTime [simp]:
  "forkDateTime (forkDateTime this t) t' = forkDateTime this t'"
  by (simp add: forkDateTime_def new_DateTime_def)






section \<open>Comparison of instants\<close>

text \<open>
  C3. For two instants with different timezone labels every comparison method throws;
  for two instants with the same label every comparison returns the comparison of the
  millisecond time values and throws nothing.
\<close>

theorem C3_comparisons:
  "(timezone x \<noteq> timezone y \<longrightarrow>
      isEqual x (Some y) = Inl InvalidDateTimeError \<and>
      isBefore x y = Inl InvalidDateTimeError \<and>
      isBeforeOrEqual x y = Inl InvalidDateTimeError \<and>
      isAfter x y = Inl InvalidDateTimeError \<and>
      isAfterOrEqual x y = Inl InvalidDateTimeError) \<and>
   (timezone x = timezone y \<longrightarrow>
      isEqual x (Some y) = Inr (valueOf x = valueOf y) \<and>
      isBefore x y = Inr (valueOf x < valueOf y) \<and>
      isBeforeOrEqual x y = Inr (valueOf x \<le> valueOf y) \<and>
      isAfter x y = Inr (valueOf x > valueOf y) \<and>
      isAfterOrEqual x y = Inr (valueOf x \<ge> valueOf y))"
  by (simp add: isEqual_def isBefore_def isBeforeOrEqual_def isAfter_def
      isAfterOrEqual_def assertSameTimeZone_def)

theorem C3_comparisons_witness:
  "isBefore \<lparr>date = 5, timezone = Some ''UTC'', duration = 0, generators = []\<rparr>
            \<lparr>date = 7, timezone = None, duration = 0, generators = []\<rparr>
     = Inl InvalidDateTimeError \<and>
   isAfterOrEqual \<lparr>date = 5, timezone = Some ''UTC'', duration = 0, generators = []\<rparr>
            \<lparr>date = 7, timezone = Some ''UTC'', duration = 0, generators = []\<rparr>
     = Inr False"
  using
    C3_comparisons [of "\<lparr>date = 5, timezone = Some ''UTC'', duration = 0, generators = []\<rparr>"
                       "\<lparr>date = 7, timezone = None, duration = 0, generators = []\<rparr>"]
    C3_comparisons [of "\<lparr>date = 5, timezone = Some ''UTC'', duration = 0, generators = []\<rparr>"
                       "\<lparr>date = 7, timezone = Some ''UTC'', duration = 0, generators = []\<rparr>"]
  by (simp add: valueOf_def)

text \<open>
  C10. \<open>isEqual\<close> with no argument returns \<open>false\<close> and throws nothing, for every
  receiver, in both packages: the test for absence comes before the timezone check.
  The check does apply to an argument that is present: with a different label
  \<open>isEqual\<close> throws, with the same label it compares the time values. Equality with an
  absent value is the only comparison that never throws: for every receiver there is an
  argument on which \<open>isEqual\<close> and each of the other four comparisons throw.
\<close>

theorem C10_isEqual_absent:
  "isEqual d None = Inr False \<and>
   (\<forall>y. timezone y \<noteq> timezone d \<longrightarrow> isEqual d (Some y) = Inl InvalidDateTimeError) \<and>
   (\<forall>y. timezone y = timezone d \<longrightarrow> isEqual d (Some y) = Inr (valueOf d = valueOf y)) \<and>
   (\<exists>y. isEqual d (Some y) = Inl InvalidDateTimeError \<and>
        isBefore d y = Inl InvalidDateTimeError \<and>
        isBeforeOrEqual d y = Inl InvalidDateTimeError \<and>
        isAfter d y = Inl InvalidDateTimeError \<and>
        isAfterOrEqual d y = Inl InvalidDateTimeError) \<and>
   legacy_isEqual l None = Inr False \<and>
   (\<forall>y. legacy_timezone y \<noteq> legacy_timezone l \<longrightarrow>
        legacy_isEqual l (Some y) = Inl ComparisonError) \<and>
   (\<forall>y. legacy_timezone y = legacy_timezone l \<longrightarrow>
        legacy_isEqual l (Some y) = Inr (number_eq (legacy_value y) (legacy_value l))) \<and>
   (\<exists>y. legacy_isEqual l (Some y) = Inl ComparisonError \<and>
        legacy_isBefore l y = Inl ComparisonError \<and>
        legacy_isBeforeOrEqual l y = Inl ComparisonError \<and>
        legacy_isAfter l y = Inl ComparisonError \<and>
        legacy_isAfterOrEqual l y = Inl ComparisonError)"
proof -
  have core: "\<exists>y. isEqual d (Some y) = Inl InvalidDateTimeError \<and>
        isBefore d y = Inl InvalidDateTimeError \<and>
        isBeforeOrEqual d y = Inl InvalidDateTimeError \<and>
        isAfter d y = Inl InvalidDateTimeError \<and>
        isAfterOrEqual d y = Inl InvalidDateTimeError"
    by (rule exI [of _ "d\<lparr>timezone := other_label (timezone d)\<rparr>"])
       (auto simp: isEqual_def isBefore_def isBeforeOrEqual_def isAfter_def isAfterOrEqual_def
          assertSameTimeZone_def other_label_def)
  have legacy: "\<exists>y. legacy_isEqual l (Some y) = Inl ComparisonError \<and>
        legacy_isBefore l y = Inl ComparisonError \<and>
        legacy_isBeforeOrEqual l y = Inl ComparisonError \<and>
        legacy_isAfter l y = Inl ComparisonError \<and>
        legacy_isAfterOrEqual l y = Inl ComparisonError"
    by (rule exI [of _ "l\<lparr>legacy_timezone := other_label (legacy_timezone l)\<rparr>"])
       (auto simp: legacy_isEqual_def legacy_isBefore_def legacy_isBeforeOrEqual_def
          legacy_isAfter_def legacy_isAfterOrEqual_def other_label_def)
  have rest: "isEqual d None = Inr False"
    "\<forall>y. timezone y \<noteq> timezone d \<longrightarrow> isEqual d (Some y) = Inl InvalidDateTimeError"
    "\<forall>y. timezone y = timezone d \<longrightarrow> isEqual d (Some y) = Inr (valueOf d = valueOf y)"
    "legacy_isEqual l None = Inr False"
    "\<forall>y. legacy_timezone y \<noteq> legacy_timezone l \<longrightarrow>
        legacy_isEqual l (Some y) = Inl ComparisonError"
    "\<forall>y. legacy_timezone y = legacy_timezone l \<longrightarrow>
        legacy_isEqual l (Some y) = Inr (number_eq (legacy_value y) (legacy_value l))"
    by (simp_all add: isEqual_def assertSameTimeZone_def legacy_isEqual_def)
  from rest core legacy show ?thesis by blast
qed

text \<open>
  An instance: a receiver labelled UTC against an argument without a label, and a legacy
  receiver with a NaN time value against an argument with the same label.
\<close>

theorem C10_isEqual_absent_witness:
  "isEqual \<lparr>date = 5, timezone = Some ''UTC'', duration = 0, generators = []\<rparr>
     (Some \<lparr>date = 5, timezone = None, duration = 0, generators = []\<rparr>)
     = Inl InvalidDateTimeError \<and>
   isEqual \<lparr>date = 5, timezone = Some ''UTC'', duration = 0, generators = []\<rparr>
     (Some \<lparr>date = 7, timezone = Some ''UTC'', duration = 0, generators = []\<rparr>)
     = Inr False \<and>
   legacy_isEqual \<lparr>legacy_value = Some 5, legacy_timezone = None\<rparr>
     (Some \<lparr>legacy_value = Some 5, legacy_timezone = Some ''UTC''\<rparr>)
     = Inl ComparisonError \<and>
   legacy_isEqual \<lparr>legacy_value = None, legacy_timezone = None\<rparr>
     (Some \<lparr>legacy_value = None, legacy_timezone = None\<rparr>)
     = Inr False"
proof -
  note c = C10_isEqual_absent
    [of "\<lparr>date = 5, timezone = Some ''UTC'', duration = 0, generators = []\<rparr>"
        "\<lparr>legacy_value = Some 5, legacy_timezone = None\<rparr>"]
  note n = C10_isEqual_absent
    [of "\<lparr>date = 5, timezone = Some ''UTC'', duration = 0, generators = []\<rparr>"
        "\<lparr>legacy_value = None, legacy_timezone = None\<rparr>"]
  from c have
    "isEqual \<lparr>date = 5, timezone = Some ''UTC'', duration = 0, generators = []\<rparr>
       (Some \<lparr>date = 5, timezone = None, duration = 0, generators = []\<rparr>)
       = Inl InvalidDateTimeError"
    by simp
  moreover from c have
    "isEqual \<lparr>date = 5, timezone = Some ''UTC'', duration = 0, generators = []\<rparr>
       (Some \<lparr>date = 7, timezone = Some ''UTC'', duration = 0, generators = []\<rparr>)
       = Inr False"
    by (simp add: valueOf_def)
  moreover from c have
    "legacy_isEqual \<lparr>legacy_value = Some 5, legacy_timezone = None\<rparr>
       (Some \<lparr>legacy_value = Some 5, legacy_timezone = Some ''UTC''\<rparr>)
       = Inl ComparisonError"
    by simp
  moreover from n have
    "legacy_isEqual \<lparr>legacy_value = None, legacy_timezone = None\<rparr>
       (Some \<lparr>legacy_value = None, legacy_timezone = None\<rparr>)
       = Inr False"
    by (simp add: number_eq_def)
  ultimately show ?thesis by blast
qed

section \<open>Setting the month\<close>





section \<open>Normalisation of the day-of-month option\<close>

text \<open>
  C5. Normalisation throws, and then a \<open>RuleOptionError\<close>, exactly when
  \<open>byDayOfMonth\<close> is present and either the frequency is WEEKLY or one of its values
  is out of range (0, below -31 or above 31). When neither \<open>byDayOfMonth\<close> nor
  \<open>byDayOfWeek\<close> is given and the frequency is YEARLY or MONTHLY, the normalised options
  get \<open>byDayOfMonth\<close> = [the day of the month of the start].
\<close>

theorem C5_normalizeOptions:
  "(normalizeOptions options norm = Inl RuleOptionError \<longleftrightarrow>
      (\<exists>l. opt_byDayOfMonth options = Some l \<and>
           (opt_frequency options = WEEKLY \<or> (\<exists>x\<in>set l. x = 0 \<or> x < - 31 \<or> 31 < x)))) \<and>
   (\<forall>e. normalizeOptions options norm = Inl e \<longrightarrow> e = RuleOptionError) \<and>
   (opt_byDayOfMonth options = None \<and> opt_byDayOfWeek options = None \<and>
    (opt_frequency options = YEARLY \<or> opt_frequency options = MONTHLY) \<longrightarrow>
      normalizeOptions options norm =
        Inr (norm\<lparr>norm_byDayOfMonth := Some [get (norm_start norm) Day]\<rparr>))"
  by (auto simp: normalizeOptions_def list_ex_iff split: option.splits)

theorem C5_normalizeOptions_witness:
  "normalizeOptions
     \<lparr>opt_frequency = WEEKLY, opt_byDayOfMonth = Some [1], opt_byDayOfWeek = None\<rparr>
     \<lparr>norm_start = \<lparr>date = 1548930030400, timezone = None, duration = 0, generators = []\<rparr>,
      norm_byDayOfMonth = None\<rparr> = Inl RuleOptionError \<and>
   normalizeOptions
     \<lparr>opt_frequency = MONTHLY, opt_byDayOfMonth = None, opt_byDayOfWeek = None\<rparr>
     \<lparr>norm_start = \<lparr>date = 1548930030400, timezone = None, duration = 0, generators = []\<rparr>,
      norm_byDayOfMonth = None\<rparr> =
   Inr \<lparr>norm_start = \<lparr>date = 1548930030400, timezone = None, duration = 0, generators = []\<rparr>,
        norm_byDayOfMonth = Some [31]\<rparr>"
proof -
  have dd: "getUTCDate 1548930030400 = 31"
    by code_simp
  show ?thesis
    using
      C5_normalizeOptions [of
        "\<lparr>opt_frequency = WEEKLY, opt_byDayOfMonth = Some [1], opt_byDayOfWeek = None\<rparr>"
        "\<lparr>norm_start = \<lparr>date = 1548930030400, timezone = None, duration = 0, generators = []\<rparr>,
          norm_byDayOfMonth = None\<rparr>"]
      C5_normalizeOptions [of
        "\<lparr>opt_frequency = MONTHLY, opt_byDayOfMonth = None, opt_byDayOfWeek = None\<rparr>"
        "\<lparr>norm_start = \<lparr>date = 1548930030400, timezone = None, duration = 0, generators = []\<rparr>,
          norm_byDayOfMonth = None\<rparr>"]
    by (simp add: dd)
qed

section \<open>Configuration objects are not mutated\<close>







section \<open>The final pipe bounds non-convergence\<close>

declare ResultPipe_run.simps [simp del]

lemma ResultPipe_run_past_end:
  "\<not> controller_invalid this \<Longrightarrow> past_end T this args = Inr True \<Longrightarrow>
     ResultPipe_run T focusedPipe this s args = (Inr None, this, s)"
  by (subst ResultPipe_run.simps) (simp add: past_end_def)

lemma ResultPipe_run_valid:
  "\<not> controller_invalid this \<Longrightarrow> past_end T this args = Inr False \<Longrightarrow>
   \<not> run_invalidDate args \<Longrightarrow> not_after_previous T this args = Inr False \<Longrightarrow>
     ResultPipe_run T focusedPipe this s args =
       (Inr (Some (run_date args)),
        this\<lparr>previousIterationDate := Some (adapter_clone T (run_date args)), invalidIterationCount := 0\<rparr>, s)"
  by (subst ResultPipe_run.simps) (simp add: past_end_def not_after_previous_def Let_def)

lemma ResultPipe_run_limit:
  "\<not> controller_invalid this \<Longrightarrow> past_end T this args = Inr False \<Longrightarrow>
   run_invalidDate args \<Longrightarrow> 50 \<le> invalidIterationCount this \<Longrightarrow>
     ResultPipe_run T focusedPipe this s args =
       (Inl PipeError, this\<lparr>invalidIterationCount := invalidIterationCount this + 1\<rparr>, s)"
  by (subst ResultPipe_run.simps) (simp add: past_end_def Let_def)

lemma ResultPipe_run_again:
  "\<not> controller_invalid this \<Longrightarrow> past_end T this args = Inr False \<Longrightarrow>
   run_invalidDate args \<Longrightarrow> invalidIterationCount this < 50 \<Longrightarrow>
   focusedPipe s (args\<lparr>run_invalidDate := False\<rparr>) = (Inr args', s') \<Longrightarrow>
     ResultPipe_run T focusedPipe this s args =
       ResultPipe_run T focusedPipe
         (this\<lparr>invalidIterationCount := invalidIterationCount this + 1\<rparr>) s' args'"
  by (subst ResultPipe_run.simps) (simp add: past_end_def Let_def)

lemma rerun_1:
  "rerun focusedPipe (Suc 0) s args = (Inr a', s') \<Longrightarrow>
     focusedPipe s (args\<lparr>run_invalidDate := False\<rparr>) = (Inr a', s')"
  by (auto split: prod.splits sum.splits)

lemma rerun_Suc:
  "focusedPipe s (args\<lparr>run_invalidDate := False\<rparr>) = (Inr a', s') \<Longrightarrow>
     rerun focusedPipe (Suc k) s args = rerun focusedPipe k s' a'"
  by simp

lemma past_end_count [simp]:
  "past_end T (this\<lparr>invalidIterationCount := n\<rparr>) args = past_end T this args"
  by (simp add: past_end_def)

lemma not_after_previous_count [simp]:
  "not_after_previous T (this\<lparr>invalidIterationCount := n\<rparr>) args = not_after_previous T this args"
  by (simp add: not_after_previous_def)

lemma never_converging:
  assumes "\<not> controller_invalid this"
    and "\<forall>k \<le> 50 - invalidIterationCount this.
           \<exists>a' s'. rerun focusedPipe k s args = (Inr a', s') \<and> run_invalidDate a' \<and>
                   past_end T this a' = Inr False"
  shows "\<exists>this' s'. ResultPipe_run T focusedPipe this s args = (Inl PipeError, this', s') \<and>
                     50 < invalidIterationCount this'"
  using assms
proof (induction "50 - invalidIterationCount this" arbitrary: this s args)
  case 0
  from 0(3) [rule_format, of 0] have a: "run_invalidDate args" "past_end T this args = Inr False"
    by auto
  from 0(1) have l: "50 \<le> invalidIterationCount this" by simp
  have r: "ResultPipe_run T focusedPipe this s args =
       (Inl PipeError, this\<lparr>invalidIterationCount := invalidIterationCount this + 1\<rparr>, s)"
    by (rule ResultPipe_run_limit [OF 0(2) a(2) a(1) l])
  show ?case unfolding r using l by simp
next
  case (Suc n)
  from Suc(4) [rule_format, of 0] have a: "run_invalidDate args" "past_end T this args = Inr False"
    by auto
  from Suc(2) have c: "invalidIterationCount this < 50" by simp
  from Suc(2) have "Suc 0 \<le> 50 - invalidIterationCount this" by simp
  with Suc(4) obtain a1 s1 where r: "rerun focusedPipe (Suc 0) s args = (Inr a1, s1)"
    by blast
  note f = rerun_1 [OF r]
  let ?this1 = "this\<lparr>invalidIterationCount := invalidIterationCount this + 1\<rparr>"
  have n: "n = 50 - invalidIterationCount ?this1" using Suc(2) by simp
  have ci: "\<not> controller_invalid ?this1" using Suc(3) by simp
  have h: "\<forall>k \<le> 50 - invalidIterationCount ?this1.
           \<exists>a' s'. rerun focusedPipe k s1 a1 = (Inr a', s') \<and> run_invalidDate a' \<and>
                   past_end T ?this1 a' = Inr False"
  proof (intro allI impI)
    fix k assume "k \<le> 50 - invalidIterationCount ?this1"
    then have "Suc k \<le> 50 - invalidIterationCount this" using c by simp
    from Suc(4) [rule_format, OF this] show
      "\<exists>a' s'. rerun focusedPipe k s1 a1 = (Inr a', s') \<and> run_invalidDate a' \<and>
                   past_end T ?this1 a' = Inr False"
      unfolding rerun_Suc [where focusedPipe = focusedPipe and s = s and args = args, OF f] by simp
  qed
  from Suc(1) [OF n ci h] show ?case
    unfolding ResultPipe_run_again [where focusedPipe = focusedPipe and s = s and T = T, OF Suc(3) a(2) a(1) c f] .
qed

lemma converging:
  assumes "\<not> controller_invalid this"
    and "invalidIterationCount this + j \<le> 50"
    and "\<forall>k < j. \<exists>a s1. rerun focusedPipe k s args = (Inr a, s1) \<and> run_invalidDate a \<and>
                         past_end T this a = Inr False"
    and "rerun focusedPipe j s args = (Inr a', s')"
    and "\<not> run_invalidDate a'" and "past_end T this a' = Inr False"
    and "not_after_previous T this a' = Inr False"
  shows "ResultPipe_run T focusedPipe this s args =
           (Inr (Some (run_date a')),
            this\<lparr>previousIterationDate := Some (adapter_clone T (run_date a')), invalidIterationCount := 0\<rparr>, s')"
  using assms
proof (induction j arbitrary: this s args)
  case 0
  from 0(4) have e: "a' = args" "s' = s" by simp_all
  from ResultPipe_run_valid [OF 0(1) 0(6) [unfolded e] 0(5) [unfolded e] 0(7) [unfolded e]]
  show ?case unfolding e .
next
  case (Suc j)
  from Suc(4) [rule_format, of 0] have a: "run_invalidDate args" "past_end T this args = Inr False"
    by auto
  from Suc(3) have c: "invalidIterationCount this < 50" by simp
  obtain r1 s1 where f0: "focusedPipe s (args\<lparr>run_invalidDate := False\<rparr>) = (r1, s1)"
    by (cases "focusedPipe s (args\<lparr>run_invalidDate := False\<rparr>)")
  from Suc(5) f0 obtain a1 where r1: "r1 = Inr a1" by (cases r1) auto
  note f = f0 [unfolded r1]
  let ?this1 = "this\<lparr>invalidIterationCount := invalidIterationCount this + 1\<rparr>"
  have h: "\<forall>k < j. \<exists>a s2. rerun focusedPipe k s1 a1 = (Inr a, s2) \<and> run_invalidDate a \<and>
                         past_end T ?this1 a = Inr False"
  proof (intro allI impI)
    fix k assume "k < j"
    then have "Suc k < Suc j" by simp
    from Suc(4) [rule_format, OF this] show
      "\<exists>a s2. rerun focusedPipe k s1 a1 = (Inr a, s2) \<and> run_invalidDate a \<and>
                         past_end T ?this1 a = Inr False"
      unfolding rerun_Suc [where focusedPipe = focusedPipe and s = s and args = args, OF f] by simp
  qed
  have "ResultPipe_run T focusedPipe ?this1 s1 a1 =
          (Inr (Some (run_date a')),
           ?this1\<lparr>previousIterationDate := Some (adapter_clone T (run_date a')), invalidIterationCount := 0\<rparr>, s')"
  proof (rule Suc(1))
    show "\<not> controller_invalid ?this1" using Suc(2) by simp
    show "invalidIterationCount ?this1 + j \<le> 50" using Suc(3) by simp
    show "\<forall>k < j. \<exists>a s2. rerun focusedPipe k s1 a1 = (Inr a, s2) \<and> run_invalidDate a \<and>
                         past_end T ?this1 a = Inr False" by (rule h)
    show "rerun focusedPipe j s1 a1 = (Inr a', s')" using Suc(5) unfolding rerun_Suc [where focusedPipe = focusedPipe and s = s and args = args, OF f] .
    show "\<not> run_invalidDate a'" by (rule Suc(6))
    show "past_end T ?this1 a' = Inr False" using Suc(7) by simp
    show "not_after_previous T ?this1 a' = Inr False" using Suc(8) by simp
  qed
  then show ?case unfolding ResultPipe_run_again [where focusedPipe = focusedPipe and s = s and T = T, OF Suc(2) a(2) a(1) c f] by simp
qed

lemma never_valid_run:
  "never_valid s (args\<lparr>run_invalidDate := False\<rparr>) = (Inr (args\<lparr>run_invalidDate := True\<rparr>), s)"
  by (simp add: never_valid_def)

lemma rerun_never_valid:
  "rerun never_valid k s args = (Inr (if k = 0 then args else args\<lparr>run_invalidDate := True\<rparr>), s)"
proof (induction k arbitrary: args s)
  case 0
  show ?case by simp
next
  case (Suc k)
  show ?case by (simp add: never_valid_run Suc)
qed

text \<open>
  C1. A run of the final pipe always returns (the function is total). When the pipe is
  not invalidated: a candidate past the end bound makes it return \<open>null\<close>, with no change
  of state; when the candidates of the next consecutive re-runs are all invalid, up to the
  one that takes the counter above 50 (51 of them for a counter at 0), the run throws
  \<open>PipeError\<close>; and when a valid candidate, after the previous date, comes while the counter
  is at most 50, the run returns its date and resets the counter.
\<close>

theorem C1_ResultPipe_bound:
  assumes "\<not> controller_invalid this"
  shows "(past_end T this args = Inr True \<longrightarrow>
            ResultPipe_run T focusedPipe this s args = (Inr None, this, s)) \<and>
         ((\<forall>k \<le> 50 - invalidIterationCount this.
              \<exists>a' s'. rerun focusedPipe k s args = (Inr a', s') \<and> run_invalidDate a' \<and>
                      past_end T this a' = Inr False) \<longrightarrow>
            (\<exists>this' s'. ResultPipe_run T focusedPipe this s args = (Inl PipeError, this', s') \<and>
                        50 < invalidIterationCount this')) \<and>
         (\<forall>j a' s'.
            invalidIterationCount this + j \<le> 50 \<and>
            (\<forall>k < j. \<exists>a s1. rerun focusedPipe k s args = (Inr a, s1) \<and> run_invalidDate a \<and>
                              past_end T this a = Inr False) \<and>
            rerun focusedPipe j s args = (Inr a', s') \<and>
            \<not> run_invalidDate a' \<and> past_end T this a' = Inr False \<and>
            not_after_previous T this a' = Inr False \<longrightarrow>
            ResultPipe_run T focusedPipe this s args =
              (Inr (Some (run_date a')),
               this\<lparr>previousIterationDate := Some (adapter_clone T (run_date a')),
                    invalidIterationCount := 0\<rparr>, s'))"
proof (intro conjI impI allI)
  assume "past_end T this args = Inr True"
  then show "ResultPipe_run T focusedPipe this s args = (Inr None, this, s)"
    by (rule ResultPipe_run_past_end [OF assms])
next
  assume "\<forall>k \<le> 50 - invalidIterationCount this.
              \<exists>a' s'. rerun focusedPipe k s args = (Inr a', s') \<and> run_invalidDate a' \<and>
                      past_end T this a' = Inr False"
  then show "\<exists>this' s'. ResultPipe_run T focusedPipe this s args = (Inl PipeError, this', s') \<and>
                        50 < invalidIterationCount this'"
    by (rule never_converging [OF assms])
next
  fix j a' s'
  assume h: "invalidIterationCount this + j \<le> 50 \<and>
            (\<forall>k < j. \<exists>a s1. rerun focusedPipe k s args = (Inr a, s1) \<and> run_invalidDate a \<and>
                              past_end T this a = Inr False) \<and>
            rerun focusedPipe j s args = (Inr a', s') \<and>
            \<not> run_invalidDate a' \<and> past_end T this a' = Inr False \<and>
            not_after_previous T this a' = Inr False"
  show "ResultPipe_run T focusedPipe this s args =
              (Inr (Some (run_date a')),
               this\<lparr>previousIterationDate := Some (adapter_clone T (run_date a')),
                    invalidIterationCount := 0\<rparr>, s')"
    by (rule converging [OF assms]) (use h in blast)+
qed

text \<open>
  An instance: stages that never accept a date, on a fresh pipe, end in \<open>PipeError\<close>; a
  date after the end gives \<open>null\<close>; a valid date is returned.
\<close>

theorem C1_ResultPipe_bound_witness:
  "fst (ResultPipe_run StandardDateAdapter never_valid (fresh_pipe None) ()
          \<lparr>run_date = 5, run_invalidDate = True\<rparr>) = Inl PipeError \<and>
   ResultPipe_run StandardDateAdapter never_valid (fresh_pipe (Some 3)) ()
          \<lparr>run_date = 5, run_invalidDate = True\<rparr>
     = (Inr None, fresh_pipe (Some 3), ()) \<and>
   fst (ResultPipe_run StandardDateAdapter never_valid (fresh_pipe (Some 7)) ()
          \<lparr>run_date = 5, run_invalidDate = False\<rparr>) = Inr (Some (5))"
proof -
  let ?a = "\<lparr>run_date = 5, run_invalidDate = True\<rparr>"
  let ?v = "\<lparr>run_date = 5, run_invalidDate = False\<rparr>"
  have c: "\<not> controller_invalid (fresh_pipe e)" for e by (simp add: fresh_pipe_def)
  have 1: "\<forall>k \<le> 50 - invalidIterationCount (fresh_pipe None).
              \<exists>a' s'. rerun never_valid k () ?a = (Inr a', s') \<and> run_invalidDate a' \<and>
                      past_end StandardDateAdapter (fresh_pipe None) a' = Inr False"
    by (simp add: rerun_never_valid past_end_def fresh_pipe_def)
  have 2: "past_end StandardDateAdapter (fresh_pipe (Some 3)) ?a = Inr True"
    by (simp add: past_end_def fresh_pipe_def StandardDateAdapter_def)
  have 3: "invalidIterationCount (fresh_pipe (Some 7)) + 0 \<le> 50 \<and>
            (\<forall>k < (0::nat). \<exists>a s1. rerun never_valid k () ?v = (Inr a, s1) \<and> run_invalidDate a \<and>
                              past_end StandardDateAdapter (fresh_pipe (Some 7)) a = Inr False) \<and>
            rerun never_valid 0 () ?v = (Inr ?v, ()) \<and>
            \<not> run_invalidDate ?v \<and> past_end StandardDateAdapter (fresh_pipe (Some 7)) ?v = Inr False \<and>
            not_after_previous StandardDateAdapter (fresh_pipe (Some 7)) ?v = Inr False"
    by (simp add: past_end_def not_after_previous_def fresh_pipe_def StandardDateAdapter_def)
  from C1_ResultPipe_bound [OF c [of None], where T = StandardDateAdapter and args = "?a"
      and focusedPipe = never_valid and s = "()"] 1
  have A: "fst (ResultPipe_run StandardDateAdapter never_valid (fresh_pipe None) () ?a) = Inl PipeError"
    by auto
  from C1_ResultPipe_bound [OF c [of "Some 3"], where T = StandardDateAdapter and args = "?a"
      and focusedPipe = never_valid and s = "()"] 2
  have B: "ResultPipe_run StandardDateAdapter never_valid (fresh_pipe (Some 3)) () ?a
     = (Inr None, fresh_pipe (Some 3), ())"
    by blast
  from C1_ResultPipe_bound [OF c [of "Some 7"], where T = StandardDateAdapter and args = "?v"
      and focusedPipe = never_valid and s = "()"] 3
  have C: "fst (ResultPipe_run StandardDateAdapter never_valid (fresh_pipe (Some 7)) () ?v)
             = Inr (Some (5))"
    by fastforce
  from A B C show ?thesis by blast
qed

section \<open>Traversals of the date-set generator\<close>

declare Dates_loop.simps [simp del]

lemma same_zone_comparisons:
  assumes "timezone a = timezone b"
  shows "isAfter a b = Inr (valueOf a > valueOf b)"
    and "isBefore a b = Inr (valueOf a < valueOf b)"
    and "isAfterOrEqual a b = Inr (valueOf a \<ge> valueOf b)"
    and "isBeforeOrEqual a b = Inr (valueOf a \<le> valueOf b)"
    and "isEqual a (Some b) = Inr (valueOf a = valueOf b)"
  using assms
  by (simp_all add: isAfter_def isBefore_def isAfterOrEqual_def isBeforeOrEqual_def isEqual_def
      assertSameTimeZone_def)

lemma dateTimeSortComparer_same_zone:
  assumes "timezone a = timezone b"
  shows "\<exists>c. dateTimeSortComparer a b = Inr c \<and> (c \<le> 0 \<longrightarrow> valueOf a \<le> valueOf b) \<and>
             (0 < c \<longrightarrow> valueOf b \<le> valueOf a)"
  unfolding dateTimeSortComparer_def same_zone_comparisons [OF assms] ebind_def
  by auto

lemma insert_sorted_same_zone:
  assumes "\<forall>y \<in> set ys. timezone y = timezone x"
  shows "\<exists>r. insert_sorted dateTimeSortComparer x ys = Inr r \<and> set r = insert x (set ys) \<and>
             length r = Suc (length ys) \<and>
             (sorted (map valueOf ys) \<longrightarrow> sorted (map valueOf r))"
  using assms
proof (induction ys)
  case Nil
  show ?case by simp
next
  case (Cons y ys)
  from Cons.prems have z: "timezone x = timezone y" by simp
  from dateTimeSortComparer_same_zone [OF z] obtain c where
    c: "dateTimeSortComparer x y = Inr c" "c \<le> 0 \<longrightarrow> valueOf x \<le> valueOf y"
      "0 < c \<longrightarrow> valueOf y \<le> valueOf x" by blast
  show ?case
  proof (cases "c \<le> 0")
    case True
    with c(2) have le: "valueOf x \<le> valueOf y" by simp
    have "insert_sorted dateTimeSortComparer x (y # ys) = Inr (x # y # ys)"
      using c(1) True by (simp add: ebind_def)
    moreover have "sorted (map valueOf (y # ys)) \<longrightarrow> sorted (map valueOf (x # y # ys))"
      using le by auto
    ultimately show ?thesis by simp
  next
    case False
    with c(3) have le: "valueOf y \<le> valueOf x" by simp
    from Cons.prems have "\<forall>y \<in> set ys. timezone y = timezone x" by simp
    from Cons.IH [OF this] obtain r where
      r: "insert_sorted dateTimeSortComparer x ys = Inr r" "set r = insert x (set ys)"
        "length r = Suc (length ys)" "sorted (map valueOf ys) \<longrightarrow> sorted (map valueOf r)"
      by blast
    have "insert_sorted dateTimeSortComparer x (y # ys) = Inr (y # r)"
      using c(1) False r(1) by (simp add: ebind_def)
    moreover have "sorted (map valueOf (y # ys)) \<longrightarrow> sorted (map valueOf (y # r))"
      using le r(2,4) by auto
    moreover have "set (y # r) = insert x (set (y # ys))" using r(2) by auto
    ultimately show ?thesis using r(3) by simp
  qed
qed

lemma sort_array_same_zone:
  assumes "\<forall>x \<in> set xs. timezone x = tz"
  shows "\<exists>r. sort_array dateTimeSortComparer xs = Inr r \<and> set r = set xs \<and>
             length r = length xs \<and> sorted (map valueOf r)"
  using assms
proof (induction xs)
  case Nil
  show ?case by simp
next
  case (Cons x xs)
  from Cons.prems have "\<forall>x \<in> set xs. timezone x = tz" by simp
  from Cons.IH [OF this] obtain r0 where
    r0: "sort_array dateTimeSortComparer xs = Inr r0" "set r0 = set xs"
      "length r0 = length xs" "sorted (map valueOf r0)" by blast
  from Cons.prems r0(2) have "\<forall>y \<in> set r0. timezone y = timezone x" by simp
  from insert_sorted_same_zone [OF this] r0(4) obtain r where
    r: "insert_sorted dateTimeSortComparer x r0 = Inr r" "set r = insert x (set r0)"
      "length r = Suc (length r0)" "sorted (map valueOf r)" by blast
  have "sort_array dateTimeSortComparer (x # xs) = Inr r"
    using r0(1) r(1) by (simp add: ebind_def)
  then show ?case using r r0 by simp
qed

lemma filter_array_total:
  assumes "\<forall>x \<in> set xs. p x = Inr (q x)"
  shows "filter_array p xs = Inr (filter q xs)"
  using assms by (induction xs) (simp_all add: ebind_def)

lemma Dates_loop_plain:
  "Dates_loop nro self dates rv dateCache dt None [] =
     (case dt of None \<Rightarrow> [] | Some d \<Rightarrow> map (emitted nro self) (d # dateCache), None)"
proof (induction dateCache arbitrary: dt)
  case Nil
  show ?case
  proof (cases dt)
    case None
    then show ?thesis by (subst Dates_loop.simps) simp
  next
    case (Some d)
    have e: "Dates_loop nro self dates rv [] None None [] = ([], None)"
      by (subst Dates_loop.simps) simp
    show ?thesis unfolding Some
      by (subst Dates_loop.simps) (simp add: shift_def e emitted_def)
  qed
next
  case (Cons c cs)
  show ?case
  proof (cases dt)
    case None
    then show ?thesis by (subst Dates_loop.simps) simp
  next
    case (Some d)
    show ?thesis unfolding Some
      by (subst Dates_loop.simps) (simp add: shift_def Cons.IH [of "Some c"] emitted_def)
  qed
qed

lemma Dates_run_plain:
  "Dates_run nro self datetimes args [] =
     (case Dates_prepare datetimes args of
        Inl e \<Rightarrow> ([], Some e)
      | Inr dates \<Rightarrow> (map (emitted nro self) dates, None))"
  by (simp add: Dates_run_def Dates_loop_plain shift_def split: sum.splits list.splits)

lemma Dates_prepare_same_zone:
  assumes "\<forall>d \<in> set datetimes. timezone d = tz"
    and "\<forall>s. args_start args = Some s \<longrightarrow> timezone s = tz"
    and "\<forall>e. args_end args = Some e \<longrightarrow> timezone e = tz"
    and "args_take args = None"
  shows "\<exists>r. sort_array dateTimeSortComparer datetimes = Inr r \<and> set r = set datetimes \<and>
             length r = length datetimes \<and> sorted (map valueOf r) \<and>
             Dates_prepare datetimes args =
               Inr (if args_reverse args then rev (filter (in_window args) r)
                    else filter (in_window args) r)"
proof -
  from sort_array_same_zone [OF assms(1)] obtain r where
    r: "sort_array dateTimeSortComparer datetimes = Inr r" "set r = set datetimes"
      "length r = length datetimes" "sorted (map valueOf r)" by blast
  have z: "\<forall>d \<in> set r. timezone d = tz" using r(2) assms(1) by simp
  define P where "P = (\<lambda>d. case args_start args of None \<Rightarrow> True | Some s \<Rightarrow> valueOf s \<le> valueOf d)"
  define Q where "Q = (\<lambda>d. case args_end args of None \<Rightarrow> True | Some e \<Rightarrow> valueOf d \<le> valueOf e)"
  have 1: "(case args_start args of
              None \<Rightarrow> Inr r
            | Some s \<Rightarrow> filter_array (\<lambda>d. isAfterOrEqual d s) r) = Inr (filter P r)"
  proof (cases "args_start args")
    case None
    then show ?thesis by (simp add: P_def)
  next
    case (Some s)
    with assms(2) have "timezone s = tz" by simp
    with z have "\<forall>d \<in> set r. isAfterOrEqual d s = Inr (P d)"
      by (simp add: same_zone_comparisons P_def Some)
    from filter_array_total [OF this] show ?thesis by (simp add: Some)
  qed
  have 2: "(case args_end args of
              None \<Rightarrow> Inr (filter P r)
            | Some e \<Rightarrow> filter_array (\<lambda>d. isBeforeOrEqual d e) (filter P r))
           = Inr (filter Q (filter P r))"
  proof (cases "args_end args")
    case None
    then show ?thesis by (simp add: Q_def)
  next
    case (Some e)
    with assms(3) have "timezone e = tz" by simp
    with z have "\<forall>d \<in> set (filter P r). isBeforeOrEqual d e = Inr (Q d)"
      by (simp add: same_zone_comparisons Q_def Some)
    from filter_array_total [OF this] show ?thesis by (simp add: Some)
  qed
  have 3: "filter Q (filter P r) = filter (in_window args) r"
  proof -
    have "filter Q (filter P r) = filter (\<lambda>d. P d \<and> Q d) r"
      by (simp add: conj_commute)
    also have "\<dots> = filter (in_window args) r"
      by (rule filter_cong) (simp_all add: in_window_def P_def Q_def)
    finally show ?thesis .
  qed
  have "Dates_prepare datetimes args =
               Inr (if args_reverse args then rev (filter (in_window args) r)
                    else filter (in_window args) r)"
    unfolding Dates_prepare_def r(1) by (simp add: ebind_def 1 2 [unfolded 3] assms(4))
  with r show ?thesis by blast
qed

lemma unbounded_fields [simp]:
  "args_start (unbounded args) = None" "args_end (unbounded args) = None"
  "args_take (unbounded args) = args_take args"
  "args_reverse (unbounded args) = args_reverse args"
  by (simp_all add: unbounded_def)

lemma in_window_unbounded [simp]: "in_window (unbounded args) d"
  by (simp add: in_window_def unbounded_def)

lemma emitted_fields:
  assumes "timezone d = tz" and "tz \<noteq> Some []"
    and "\<forall>d. timezone d = tz \<longrightarrow> timezone (nro d) = tz \<and> valueOf (nro d) = valueOf d"
  shows "timezone (emitted nro self d) = tz" and "valueOf (emitted nro self d) = valueOf d"
proof -
  have a: "timezone (add_generator d self) = tz" "valueOf (add_generator d self) = valueOf d"
    using assms(1,2) by (simp_all add: add_generator_def new_DateTime_def valueOf_def)
  from assms(3) a show "timezone (emitted nro self d) = tz"
    "valueOf (emitted nro self d) = valueOf d"
    by (simp_all add: emitted_def)
qed

lemma in_window_emitted:
  assumes "timezone d = tz" and "tz \<noteq> Some []"
    and "\<forall>d. timezone d = tz \<longrightarrow> timezone (nro d) = tz \<and> valueOf (nro d) = valueOf d"
  shows "in_window args (emitted nro self d) = in_window args d"
  unfolding in_window_def emitted_fields(2) [OF assms] ..

section \<open>Bounded traversals of a date set\<close>

text \<open>
  C8, for the \<open>Dates\<close> generator. The dates of the generator and the bounds carry the
  generator's timezone label, no \<open>take\<close> is given, and the output normalisation keeps the
  label and the time value of a date in that timezone. Then the unbounded traversal ends
  without an exception, and the traversal with bounds yields exactly its values with
  \<open>start \<le> d \<le> end\<close>, in the same order, in either direction.
\<close>

theorem C8_bounded_window:
  assumes "\<forall>d \<in> set datetimes. timezone d = tz" and "tz \<noteq> Some []"
    and "\<forall>s. args_start args = Some s \<longrightarrow> timezone s = tz"
    and "\<forall>e. args_end args = Some e \<longrightarrow> timezone e = tz"
    and "args_take args = None"
    and "\<forall>d. timezone d = tz \<longrightarrow> timezone (nro d) = tz \<and> valueOf (nro d) = valueOf d"
  shows "snd (Dates_run nro self datetimes (unbounded args) []) = None \<and>
         Dates_run nro self datetimes args [] =
           (filter (in_window args) (fst (Dates_run nro self datetimes (unbounded args) [])),
            None)"
proof -
  from Dates_prepare_same_zone [OF assms(1,3,4,5)] obtain r where
    r: "sort_array dateTimeSortComparer datetimes = Inr r" "set r = set datetimes"
    and b: "Dates_prepare datetimes args =
               Inr (if args_reverse args then rev (filter (in_window args) r)
                    else filter (in_window args) r)" by blast
  have "\<exists>r'. sort_array dateTimeSortComparer datetimes = Inr r' \<and>
          Dates_prepare datetimes (unbounded args) =
               Inr (if args_reverse (unbounded args)
                    then rev (filter (in_window (unbounded args)) r')
                    else filter (in_window (unbounded args)) r')"
    using Dates_prepare_same_zone [of datetimes tz "unbounded args"] assms(1,5)
    by auto
  with r(1) have u: "Dates_prepare datetimes (unbounded args) =
                       Inr (if args_reverse args then rev r else r)"
    by auto
  define L where "L = (if args_reverse args then rev r else r)"
  have z: "\<forall>d \<in> set L. timezone d = tz" using r(2) assms(1) by (simp add: L_def)
  have f: "filter (in_window args) (map (emitted nro self) L) =
           map (emitted nro self) (filter (in_window args) L)"
  proof -
    have "filter (in_window args \<circ> emitted nro self) L = filter (in_window args) L"
    proof (rule filter_cong [OF refl])
      fix d assume "d \<in> set L"
      with z have "timezone d = tz" by simp
      from in_window_emitted [OF this assms(2,6)]
      show "(in_window args \<circ> emitted nro self) d = in_window args d" by simp
    qed
    then show ?thesis by (simp add: filter_map)
  qed
  have l: "(if args_reverse args then rev (filter (in_window args) r)
            else filter (in_window args) r) = filter (in_window args) L"
    by (simp add: L_def rev_filter)
  have U: "Dates_run nro self datetimes (unbounded args) [] = (map (emitted nro self) L, None)"
    by (simp add: Dates_run_plain u L_def)
  have B: "Dates_run nro self datetimes args [] =
             (map (emitted nro self) (filter (in_window args) L), None)"
    by (simp add: Dates_run_plain b l)
  show ?thesis unfolding U B using f by simp
qed

text \<open>
  An instance: the dates 30, 10 and 20 with the window from 15 to 30 give 20 and 30.
\<close>

theorem C8_bounded_window_witness:
  "Dates_run (\<lambda>d. d) 0 [instant 30, instant 10, instant 20] example_window [] =
     (filter (in_window example_window)
        (fst (Dates_run (\<lambda>d. d) 0 [instant 30, instant 10, instant 20]
                (unbounded example_window) [])), None) \<and>
   fst (Dates_run (\<lambda>d. d) 0 [instant 30, instant 10, instant 20] (unbounded example_window) [])
     = [add_generator (instant 10) 0, add_generator (instant 20) 0,
        add_generator (instant 30) 0] \<and>
   filter (in_window example_window)
     [add_generator (instant 10) 0, add_generator (instant 20) 0, add_generator (instant 30) 0]
     = [add_generator (instant 20) 0, add_generator (instant 30) 0]"
proof -
  have 1: "\<forall>d \<in> set [instant 30, instant 10, instant 20]. timezone d = None"
    by (simp add: instant_def)
  have 2: "\<forall>s. args_start example_window = Some s \<longrightarrow> timezone s = None"
    "\<forall>e. args_end example_window = Some e \<longrightarrow> timezone e = None"
    "args_take example_window = None"
    by (auto simp: example_window_def instant_def)
  have 3: "\<forall>d. timezone d = None \<longrightarrow>
             timezone ((\<lambda>d. d) d) = None \<and> valueOf ((\<lambda>d. d) d) = valueOf d"
    by simp
  have 4: "None \<noteq> Some ([] :: string)" by simp
  note t = C8_bounded_window [OF 1 4 2 3, of 0]
  have u: "fst (Dates_run (\<lambda>d. d) 0 [instant 30, instant 10, instant 20]
                 (unbounded example_window) [])
     = [add_generator (instant 10) 0, add_generator (instant 20) 0,
        add_generator (instant 30) 0]"
    by (simp add: Dates_run_plain Dates_prepare_def unbounded_def example_window_def ebind_def
        dateTimeSortComparer_def same_zone_comparisons instant_def valueOf_def emitted_def)
  have w: "filter (in_window example_window)
     [add_generator (instant 10) 0, add_generator (instant 20) 0, add_generator (instant 30) 0]
     = [add_generator (instant 20) 0, add_generator (instant 30) 0]"
    by (simp add: in_window_def example_window_def instant_def valueOf_def add_generator_def
        new_DateTime_def)
  from t u w show ?thesis by blast
qed

section \<open>Order of the values of a traversal\<close>



lemma skips_ahead_Nil [simp]: "skips_ahead rv out []"
  by (cases out) simp_all

lemma pending_shift [simp]: "pending (fst (shift c)) (snd (shift c)) = c"
  by (simp add: pending_def shift_def split: list.splits)

lemma shift_zone:
  "\<forall>d \<in> set c. timezone d = tz \<Longrightarrow>
     (\<forall>d \<in> set (snd (shift c)). timezone d = tz) \<and> (\<forall>d. fst (shift c) = Some d \<longrightarrow> timezone d = tz)"
  by (auto simp: shift_def split: list.splits)














section \<open>The unique operator collapses equal neighbours\<close>

lemma normalizeRunOutput_same_zone [simp]:
  "timezone d = tz \<Longrightarrow> normalizeRunOutput tz convert d = d"
  by (simp add: normalizeRunOutput_def)

lemma picked_plain [simp]: "picked (v # vs, None) = Inr (vs, None)"
  by (simp add: picked_def split: list.splits)

lemma equal_loop_dropWhile:
  assumes "timezone x = tz"
  shows "\<forall>v \<in> set vs. timezone v = tz \<Longrightarrow> \<forall>v \<in> set vs. pe v args = Inr (q v) \<Longrightarrow>
         equal_loop pe args x None vs =
           Inr (dropWhile (\<lambda>w. \<not> q w \<and> valueOf w = valueOf x) vs, None)"
proof (induction vs)
  case Nil
  show ?case by simp
next
  case (Cons v vs)
  from Cons.prems assms have z: "timezone v = timezone x" by simp
  from Cons.prems have p: "pe v args = Inr (q v)" by simp
  from Cons.prems have "equal_loop pe args x None vs =
           Inr (dropWhile (\<lambda>w. \<not> q w \<and> valueOf w = valueOf x) vs, None)"
    by (intro Cons.IH) simp_all
  then show ?case
    by (simp add: streamPastEnd_def p ebind_def same_zone_comparisons(5) [OF z])
qed

lemma unique_loop_step:
  assumes "timezone v = tz" and "\<forall>w \<in> set vs. timezone w = tz"
    and "\<forall>w \<in> set vs. pe w args = Inr (q w)"
  shows "unique_loop pe ps nro args None (v # vs) [] =
           (nro v # fst (unique_loop pe ps nro args None
                           (dropWhile (\<lambda>w. \<not> q w \<and> valueOf w = valueOf v) vs) []),
            snd (unique_loop pe ps nro args None
                   (dropWhile (\<lambda>w. \<not> q w \<and> valueOf w = valueOf v) vs) []))"
proof -
  have "after_yield pe ps args v None (v # vs, None) =
          Inr (dropWhile (\<lambda>w. \<not> q w \<and> valueOf w = valueOf v) vs, None)"
    by (simp add: after_yield_def ebind_def
        equal_loop_dropWhile [where pe = pe and args = args and q = q, OF assms])
  then show ?thesis by (simp add: Let_def)
qed

lemma dropWhile_head:
  assumes "xs = [] \<or> (\<exists>r. ys = hd xs # r)" and "xs = dropWhile P zs" and "xs = [] \<longrightarrow> ys = []"
  shows "dropWhile P ys = ys"
proof (cases xs)
  case Nil
  with assms(3) show ?thesis by simp
next
  case (Cons x r0)
  with assms(1) obtain r where ys: "ys = x # r" by auto
  from Cons assms(2) have "dropWhile P zs \<noteq> []" by simp
  from hd_dropWhile [OF this] have "\<not> P x" using Cons assms(2) by simp
  then show ?thesis by (simp add: ys)
qed

lemma unique_loop_plain_imp:
  "\<forall>v \<in> set vs. timezone v = tz \<Longrightarrow> \<forall>v \<in> set vs. pe v args = Inr (q v) \<Longrightarrow>
     snd (unique_loop pe ps (normalizeRunOutput tz convert) args None vs []) = None \<and>
     set (fst (unique_loop pe ps (normalizeRunOutput tz convert) args None vs [])) \<subseteq> set vs \<and>
     (vs = [] \<longrightarrow> fst (unique_loop pe ps (normalizeRunOutput tz convert) args None vs []) = []) \<and>
     (vs \<noteq> [] \<longrightarrow>
        (\<exists>r. fst (unique_loop pe ps (normalizeRunOutput tz convert) args None vs []) = hd vs # r)) \<and>
     fst (unique_loop pe ps (normalizeRunOutput tz convert) args None
            (fst (unique_loop pe ps (normalizeRunOutput tz convert) args None vs [])) []) =
       fst (unique_loop pe ps (normalizeRunOutput tz convert) args None vs []) \<and>
     ((\<forall>v \<in> set vs. \<not> q v) \<longrightarrow>
        map valueOf (fst (unique_loop pe ps (normalizeRunOutput tz convert) args None vs [])) =
          remdups_adj (map valueOf vs))"
proof (induction vs rule: length_induct)
  case (1 vs)
  let ?nro = "normalizeRunOutput tz convert"
  let ?F = "\<lambda>xs. unique_loop pe ps ?nro args None xs []"
  show ?case
  proof (cases vs)
    case Nil
    show ?thesis unfolding Nil by simp
  next
    case (Cons v ws)
    from "1.prems" have zv: "timezone v = tz" and zw: "\<forall>w \<in> set ws. timezone w = tz"
      and pv: "pe v args = Inr (q v)" and pw: "\<forall>w \<in> set ws. pe w args = Inr (q w)"
      by (simp_all add: Cons)
    define d where "d = dropWhile (\<lambda>w. \<not> q w \<and> valueOf w = valueOf v) ws"
    have sd: "set d \<subseteq> set ws" unfolding d_def by (auto dest: set_dropWhileD)
    have ld: "length d < length vs"
      unfolding d_def Cons using length_dropWhile_le [of _ ws] by (simp add: le_imp_less_Suc)
    have zd: "\<forall>w \<in> set d. timezone w = tz" and pd: "\<forall>w \<in> set d. pe w args = Inr (q w)"
      using sd zw pw by blast+
    from "1.IH" [THEN spec, of d, THEN mp, OF ld, THEN mp, OF zd, THEN mp, OF pd] have
      i1: "snd (?F d) = None" and i2: "set (fst (?F d)) \<subseteq> set d"
      and i3: "d = [] \<longrightarrow> fst (?F d) = []"
      and i4: "d \<noteq> [] \<longrightarrow> (\<exists>r. fst (?F d) = hd d # r)"
      and i5: "fst (?F (fst (?F d))) = fst (?F d)"
      and i6: "(\<forall>v \<in> set d. \<not> q v) \<longrightarrow> map valueOf (fst (?F d)) = remdups_adj (map valueOf d)"
      by blast+
    have F: "?F (v # ws) = (v # fst (?F d), snd (?F d))"
      unfolding d_def
      using unique_loop_step [where pe = pe and args = args and q = q, OF zv zw pw, of ps ?nro] zv
      by simp
    have zo: "\<forall>w \<in> set (fst (?F d)). timezone w = tz"
      and po: "\<forall>w \<in> set (fst (?F d)). pe w args = Inr (q w)"
      using i2 zd pd by blast+
    have dw: "dropWhile (\<lambda>w. \<not> q w \<and> valueOf w = valueOf v) (fst (?F d)) = fst (?F d)"
      by (rule dropWhile_head [where xs = d and zs = ws]) (use i3 i4 d_def in blast)+
    have FF: "?F (v # fst (?F d)) = (v # fst (?F (fst (?F d))), snd (?F (fst (?F d))))"
      using unique_loop_step [where pe = pe and args = args and q = q, OF zv zo po, of ps ?nro] zv
      unfolding dw by simp
    have e: "map valueOf (v # fst (?F d)) = remdups_adj (map valueOf (v # ws))"
      if nq: "\<forall>x \<in> set (v # ws). \<not> q x"
    proof -
      from nq sd have "\<forall>x \<in> set d. \<not> q x" by auto
      with i6 have m: "map valueOf (fst (?F d)) = remdups_adj (map valueOf d)" by simp
      from nq have "d = dropWhile (\<lambda>w. valueOf w = valueOf v) ws"
        unfolding d_def by (intro dropWhile_cong) auto
      then have "map valueOf d = dropWhile (\<lambda>y. y = valueOf v) (map valueOf ws)"
        by (simp add: dropWhile_map comp_def)
      then show ?thesis by (simp add: m remdups_adj_Cons' [of "valueOf v"])
    qed
    show ?thesis unfolding Cons F
      using i1 i2 sd e FF i5 by (auto simp: F)
  qed
qed

lemma unique_loop_plain:
  assumes "\<forall>v \<in> set vs. timezone v = tz" and "\<forall>v \<in> set vs. pe v args = Inr (q v)"
  shows "snd (unique_loop pe ps (normalizeRunOutput tz convert) args None vs []) = None"
    and "set (fst (unique_loop pe ps (normalizeRunOutput tz convert) args None vs [])) \<subseteq> set vs"
    and "fst (unique_loop pe ps (normalizeRunOutput tz convert) args None
            (fst (unique_loop pe ps (normalizeRunOutput tz convert) args None vs [])) []) =
         fst (unique_loop pe ps (normalizeRunOutput tz convert) args None vs [])"
    and "\<forall>v \<in> set vs. \<not> q v \<Longrightarrow>
        map valueOf (fst (unique_loop pe ps (normalizeRunOutput tz convert) args None vs [])) =
          remdups_adj (map valueOf vs)"
  using unique_loop_plain_imp [where pe = pe and args = args and q = q and vs = vs and tz = tz
      and ps = ps and convert = convert] assms
  by blast+

lemma scenario_facts:
  "timezone date_2019 = None" "timezone date_2020 = None"
  "duration date_2019 = 0" "duration date_2020 = 0"
  "valueOf date_2019 = 1546304461001" "valueOf date_2020 = 1583204583003"
  by code_simp+

lemma scenario_dates:
  assumes "\<forall>d. timezone d = None \<longrightarrow> nro d = d"
  shows "Dates_run nro self [date_2019, date_2019, date_2020] plain_run [] =
           ([add_generator date_2019 self, add_generator date_2019 self,
             add_generator date_2020 self], None)"
proof -
  have z: "timezone date_2019 = timezone date_2020" "timezone date_2019 = timezone date_2019"
    by (simp_all add: scenario_facts)
  have p: "Dates_prepare [date_2019, date_2019, date_2020] plain_run =
             Inr [date_2019, date_2019, date_2020]"
    by (simp add: Dates_prepare_def plain_run_def ebind_def dateTimeSortComparer_def
        same_zone_comparisons [OF z(1)] same_zone_comparisons [OF z(2)] scenario_facts)
  have e: "emitted nro self d = add_generator d self" if "timezone d = None" for d
    using assms that by (simp add: emitted_def add_generator_def new_DateTime_def)
  show ?thesis by (simp add: Dates_run_plain p e scenario_facts)
qed

lemma scenario_unique:
  assumes "\<forall>v. pe v plain_run = Inr False"
  shows "UniqueOperator_run pe ps None convert plain_run
           (Some ([add_generator date_2019 self, add_generator date_2019 self,
                   add_generator date_2020 self], None)) [] =
         ([add_generator date_2019 self, add_generator date_2020 self], None)"
proof -
  have g: "timezone (add_generator date_2019 self) = None"
    "timezone (add_generator date_2020 self) = None"
    "valueOf (add_generator date_2019 self) = 1546304461001"
    "valueOf (add_generator date_2020 self) = 1583204583003"
    using scenario_facts by (simp_all add: add_generator_def new_DateTime_def valueOf_def)
  have z: "timezone (add_generator date_2019 self) = timezone (add_generator date_2019 self)"
    "timezone (add_generator date_2020 self) = timezone (add_generator date_2019 self)"
    by (simp_all add: g)
  show ?thesis
    by (simp add: UniqueOperator_run_def after_yield_def ebind_def streamPastEnd_def assms
        same_zone_comparisons(5) [OF z(1)] same_zone_comparisons(5) [OF z(2)] g Let_def)
qed

text \<open>
  C7. On an upstream that ends without an exception, whose values carry the operator's
  timezone label and on which the end test does not throw, a plain traversal of
  \<open>unique\<close> applied to the output of \<open>unique\<close> gives that output again. When no value is
  past the end, the time values of the output are those of the upstream with each run of
  equal neighbours collapsed into one. For the date set of 2019-01-01T01:01:01.001 twice
  and 2020-03-03T03:03:03.003 once, traversed without bounds, the output is the first
  date once and then the second, the first being the earlier.
\<close>

theorem C7_unique_idempotent:
  assumes "\<forall>v \<in> set vs. timezone v = tz"
    and "\<forall>v \<in> set vs. \<exists>b. pe v args = Inr b"
  shows "UniqueOperator_run pe ps tz convert args
           (Some (UniqueOperator_run pe ps tz convert args (Some (vs, None)) [])) [] =
         UniqueOperator_run pe ps tz convert args (Some (vs, None)) [] \<and>
         snd (UniqueOperator_run pe ps tz convert args (Some (vs, None)) []) = None \<and>
         ((\<forall>v \<in> set vs. pe v args = Inr False) \<longrightarrow>
            map valueOf (fst (UniqueOperator_run pe ps tz convert args (Some (vs, None)) [])) =
              remdups_adj (map valueOf vs)) \<and>
         ((\<forall>v. pe v plain_run = Inr False) \<and> (\<forall>d. timezone d = None \<longrightarrow> nro d = d) \<longrightarrow>
            UniqueOperator_run pe ps None convert plain_run
              (Some (Dates_run nro self [date_2019, date_2019, date_2020] plain_run [])) [] =
            ([add_generator date_2019 self, add_generator date_2020 self], None) \<and>
            valueOf (add_generator date_2019 self) < valueOf (add_generator date_2020 self))"
proof -
  let ?nro = "normalizeRunOutput tz convert"
  let ?F = "\<lambda>xs. unique_loop pe ps ?nro args None xs []"
  define q where "q = (\<lambda>v. pe v args = Inr True)"
  have pq: "\<forall>v \<in> set vs. pe v args = Inr (q v)"
  proof
    fix v assume "v \<in> set vs"
    with assms(2) obtain b where "pe v args = Inr b" by blast
    then show "pe v args = Inr (q v)" by (cases b) (simp_all add: q_def)
  qed
  note u = unique_loop_plain [where pe = pe and args = args and q = q and ps = ps
      and convert = convert, OF assms(1) pq]
  have U: "UniqueOperator_run pe ps tz convert args (Some (xs, None)) [] = ?F xs" for xs
    by (simp add: UniqueOperator_run_def split: list.splits)
  have s: "?F vs = (fst (?F vs), None)" using u(1) by (simp add: prod_eq_iff)
  have zo: "\<forall>w \<in> set (fst (?F vs)). timezone w = tz"
    and po: "\<forall>w \<in> set (fst (?F vs)). pe w args = Inr (q w)"
    using u(2) assms(1) pq by blast+
  have s2: "snd (?F (fst (?F vs))) = None"
    by (rule unique_loop_plain(1) [where pe = pe and args = args and q = q, OF zo po])
  have 1: "UniqueOperator_run pe ps tz convert args
           (Some (UniqueOperator_run pe ps tz convert args (Some (vs, None)) [])) [] =
         UniqueOperator_run pe ps tz convert args (Some (vs, None)) []"
  proof -
    have "UniqueOperator_run pe ps tz convert args (Some (?F vs)) [] = ?F (fst (?F vs))"
      by (subst s) (rule U)
    also have "\<dots> = ?F vs" using u(1,3) s2 by (simp add: prod_eq_iff)
    finally show ?thesis unfolding U .
  qed
  have 2: "snd (UniqueOperator_run pe ps tz convert args (Some (vs, None)) []) = None"
    unfolding U by (rule u(1))
  have 3: "map valueOf (fst (UniqueOperator_run pe ps tz convert args (Some (vs, None)) [])) =
              remdups_adj (map valueOf vs)" if "\<forall>v \<in> set vs. pe v args = Inr False"
  proof -
    from that have "\<forall>v \<in> set vs. \<not> q v" by (simp add: q_def)
    then show ?thesis unfolding U by (rule u(4))
  qed
  have 4: "UniqueOperator_run pe ps None convert plain_run
              (Some (Dates_run nro self [date_2019, date_2019, date_2020] plain_run [])) [] =
            ([add_generator date_2019 self, add_generator date_2020 self], None) \<and>
            valueOf (add_generator date_2019 self) < valueOf (add_generator date_2020 self)"
    if h: "(\<forall>v. pe v plain_run = Inr False) \<and> (\<forall>d. timezone d = None \<longrightarrow> nro d = d)"
  proof -
    from h have a: "\<forall>v. pe v plain_run = Inr False" and b: "\<forall>d. timezone d = None \<longrightarrow> nro d = d"
      by blast+
    have "valueOf (add_generator date_2019 self) < valueOf (add_generator date_2020 self)"
      using scenario_facts by (simp add: add_generator_def new_DateTime_def valueOf_def)
    then show ?thesis unfolding scenario_dates [OF b] scenario_unique [where pe = pe, OF a]
      by simp
  qed
  from 1 2 3 4 show ?thesis by blast
qed

text \<open>
  An instance: without bounds, the values 10, 10, 20 give 10, 20, and so does a second
  pass; the scenario with the identity as output normalisation.
\<close>

theorem C7_unique_idempotent_witness:
  "UniqueOperator_run never_past_end at_or_after None (\<lambda>d. d) plain_run
     (Some (UniqueOperator_run never_past_end at_or_after None (\<lambda>d. d) plain_run
              (Some ([instant 10, instant 10, instant 20], None)) [])) [] =
   UniqueOperator_run never_past_end at_or_after None (\<lambda>d. d) plain_run
     (Some ([instant 10, instant 10, instant 20], None)) [] \<and>
   map valueOf (fst (UniqueOperator_run never_past_end at_or_after None (\<lambda>d. d) plain_run
                       (Some ([instant 10, instant 10, instant 20], None)) [])) = [10, 20] \<and>
   UniqueOperator_run never_past_end at_or_after None (\<lambda>d. d) plain_run
     (Some (Dates_run (\<lambda>d. d) 0 [date_2019, date_2019, date_2020] plain_run [])) [] =
   ([add_generator date_2019 0, add_generator date_2020 0], None)"
proof -
  let ?vs = "[instant 10, instant 10, instant 20]"
  have 1: "\<forall>v \<in> set ?vs. timezone v = None" by (simp add: instant_def)
  have 2: "\<forall>v \<in> set ?vs. \<exists>b. never_past_end v plain_run = Inr b"
    by (auto simp: never_past_end_def)
  have 3: "\<forall>v \<in> set ?vs. never_past_end v plain_run = Inr False"
    by (simp add: never_past_end_def)
  have 4: "(\<forall>v. never_past_end v plain_run = Inr False) \<and>
           (\<forall>d. timezone d = None \<longrightarrow> (\<lambda>d. d) d = d)"
    by (simp add: never_past_end_def)
  have 5: "remdups_adj (map valueOf ?vs) = [10, 20]" by (simp add: instant_def valueOf_def)
  from C7_unique_idempotent [where pe = never_past_end and args = plain_run
      and ps = at_or_after and convert = "\<lambda>d. d" and nro = "\<lambda>d. d" and self = 0, OF 1 2] 3 4 5
  show ?thesis by simp
qed

section \<open>The month-of-year rule\<close>

























end
